theory Spec2Isabelle
  imports Complex_Main "HOL-Library.AList" "HOL-Library.Log_Nat"
begin

section \<open>Unicorn Factory: the tokenomics ledger engine\<close>

text \<open>
  A shallow embedding of the server of the repository: the bonding-curve quote functions
  and the request handlers of \<^verbatim>\<open>server/dist/index.js\<close>, together with the
  milestone and proposal handlers of its TypeScript source (the listing that follows the
  deployment guide under \<^verbatim>\<open>src/\<close>), whose buy, sell and offer handlers are the same
  code as the compiled file's.

  JavaScript numbers are IEEE 754 binary64 values (\<open>JSNumber\<close>): \<^verbatim>\<open>NaN\<close>, the two
  infinities, and the finite values, each of which is the real number it stands for. Sums
  and products are rounded to the nearest binary64 value, ties to even. The two zeros are
  one value: the server never divides, its comparisons take them for equal and JSON prints
  both as \<^verbatim>\<open>0\<close>. A numeric request field is the value that
  \<^verbatim>\<open>Number(req.body?.x || 0)\<close> yields, so a missing field is \<open>0\<close>, a string that is
  not a number is \<^verbatim>\<open>NaN\<close>, and the handlers do not ask for whole numbers. A JavaScript
  \<^verbatim>\<open>Map\<close> is an association list: \<^verbatim>\<open>get\<close> is \<^const>\<open>map_of\<close>, \<^verbatim>\<open>set\<close> is
  \<^const>\<open>AList.update\<close> (replace in place, or append a new key). The identifiers drawn
  by \<^verbatim>\<open>nanoid(8)\<close> and the clock \<^verbatim>\<open>Date.now()\<close> are inputs of the handlers.
  The caller of a handler is what \<^verbatim>\<open>getUserId\<close> returns: the header \<^verbatim>\<open>x-user-id\<close>, or
  \<^verbatim>\<open>demo-user\<close> without one. The routes that only read the stores and the demo route
  \<^verbatim>\<open>/dev/seed\<close> are left out.
\<close>

subsection \<open>Binary64 numbers\<close>

text \<open>
  \<open>lg2 x\<close> is the exponent of the binade of a positive real, \<open>\<lfloor>log\<^sub>2 x\<rfloor>\<close>, computed
  on whole numbers. \<open>rnd x\<close> is the binary64 value nearest to the real \<open>x\<close>: a mantissa of
  at most 53 bits, scaled by a power of two that is at least \<open>2^-1074\<close>, halfway cases
  rounded to the even mantissa, and an infinity when the rounded value reaches \<open>2^1024\<close>.
  A decimal literal of the source denotes the rounded value of its decimal: \<^verbatim>\<open>0.01\<close>
  is \<open>rnd (1 / 100)\<close>. \<open>MAX_VALUE\<close> is the largest finite value,
  \<^verbatim>\<open>Number.MAX_VALUE\<close>. The theorems below hold for every real under \<open>Fin\<close>, and so for
  every binary64 value.
\<close>

datatype JSNumber = NaN | NegInf | Fin real | PosInf

definition lg2 :: "real \<Rightarrow> int" where
  "lg2 x = (if 1 \<le> x then int (floorlog 2 (nat \<lfloor>x\<rfloor>)) - 1
            else - int (floorlog 2 (nat (\<lceil>1 / x\<rceil> - 1))))"

definition round_even :: "real \<Rightarrow> int" where
  "round_even q =
     (let f = \<lfloor>q\<rfloor>; r = q - of_int f
      in if r < 1 / 2 then f else if 1 / 2 < r then f + 1 else if even f then f else f + 1)"

definition expo :: "real \<Rightarrow> int" where
  "expo x = max (lg2 \<bar>x\<bar> - 52) (- 1074)"

definition mant :: "real \<Rightarrow> int" where
  "mant x = round_even (\<bar>x\<bar> / 2 powi expo x)"

definition rnd :: "real \<Rightarrow> JSNumber" where
  "rnd x =
     (if x = 0 then Fin 0
      else if 2 ^ 1024 \<le> of_int (mant x) * (2::real) powi expo x
        then (if 0 < x then PosInf else NegInf)
      else Fin (sgn x * (of_int (mant x) * 2 powi expo x)))"


subsection \<open>Arithmetic and comparison of numbers\<close>

text \<open>
  The operators the server applies to numbers. A sum or a product of finite values is
  rounded; the cases with \<^verbatim>\<open>NaN\<close> and the infinities are those of IEEE 754. A
  comparison with \<^verbatim>\<open>NaN\<close> is false. \<^verbatim>\<open>a - b\<close> is \<^verbatim>\<open>a + (-b)\<close>, \<^verbatim>\<open>a > b\<close> is
  \<^verbatim>\<open>b < a\<close> and \<^verbatim>\<open>a >= b\<close> is \<^verbatim>\<open>b <= a\<close>.
\<close>

fun js_neg :: "JSNumber \<Rightarrow> JSNumber" where
  "js_neg NaN = NaN"
| "js_neg NegInf = PosInf"
| "js_neg (Fin x) = Fin (- x)"
| "js_neg PosInf = NegInf"

fun js_add :: "JSNumber \<Rightarrow> JSNumber \<Rightarrow> JSNumber" where
  "js_add (Fin x) (Fin y) = rnd (x + y)"
| "js_add NaN b = NaN"
| "js_add a NaN = NaN"
| "js_add PosInf NegInf = NaN"
| "js_add NegInf PosInf = NaN"
| "js_add PosInf b = PosInf"
| "js_add a PosInf = PosInf"
| "js_add NegInf b = NegInf"
| "js_add a NegInf = NegInf"

definition js_sub :: "JSNumber \<Rightarrow> JSNumber \<Rightarrow> JSNumber" where
  "js_sub a b = js_add a (js_neg b)"

fun js_mul :: "JSNumber \<Rightarrow> JSNumber \<Rightarrow> JSNumber" where
  "js_mul (Fin x) (Fin y) = rnd (x * y)"
| "js_mul NaN b = NaN"
| "js_mul a NaN = NaN"
| "js_mul (Fin x) PosInf = (if x = 0 then NaN else if 0 < x then PosInf else NegInf)"
| "js_mul (Fin x) NegInf = (if x = 0 then NaN else if 0 < x then NegInf else PosInf)"
| "js_mul PosInf (Fin y) = (if y = 0 then NaN else if 0 < y then PosInf else NegInf)"
| "js_mul NegInf (Fin y) = (if y = 0 then NaN else if 0 < y then NegInf else PosInf)"
| "js_mul PosInf PosInf = PosInf"
| "js_mul PosInf NegInf = NegInf"
| "js_mul NegInf PosInf = NegInf"
| "js_mul NegInf NegInf = PosInf"

fun js_lt :: "JSNumber \<Rightarrow> JSNumber \<Rightarrow> bool" where
  "js_lt (Fin x) (Fin y) = (x < y)"
| "js_lt NaN b = False"
| "js_lt a NaN = False"
| "js_lt a NegInf = False"
| "js_lt PosInf b = False"
| "js_lt NegInf b = True"
| "js_lt a PosInf = True"

fun js_le :: "JSNumber \<Rightarrow> JSNumber \<Rightarrow> bool" where
  "js_le (Fin x) (Fin y) = (x \<le> y)"
| "js_le NaN b = False"
| "js_le a NaN = False"
| "js_le NegInf b = True"
| "js_le a PosInf = True"
| "js_le a NegInf = False"
| "js_le PosInf b = False"

text \<open>\<^verbatim>\<open>Math.max\<close> and \<^verbatim>\<open>Math.min\<close> of two numbers: \<^verbatim>\<open>NaN\<close> when either is.\<close>

definition js_max :: "JSNumber \<Rightarrow> JSNumber \<Rightarrow> JSNumber" where
  "js_max a b = (if a = NaN \<or> b = NaN then NaN else if js_lt a b then b else a)"

definition js_min :: "JSNumber \<Rightarrow> JSNumber \<Rightarrow> JSNumber" where
  "js_min a b = (if a = NaN \<or> b = NaN then NaN else if js_lt b a then b else a)"

text \<open>The real number that a finite value stands for.\<close>

fun val :: "JSNumber \<Rightarrow> real" where
  "val (Fin x) = x"
| "val a = 0"

text \<open>The whole numbers \<open>0, 1, 2, \<dots>\<close> among the values.\<close>

fun whole :: "JSNumber \<Rightarrow> bool" where
  "whole (Fin x) = (0 \<le> x \<and> of_int \<lfloor>x\<rfloor> = x)"
| "whole a = False"

subsection \<open>Constants and the pricing function\<close>

text \<open>The literals \<^verbatim>\<open>0.01\<close>, \<^verbatim>\<open>0.0001\<close> and \<^verbatim>\<open>100000\<close> of the source.\<close>

definition BASE_PRICE :: JSNumber where
  "BASE_PRICE = rnd (1 / 100)"

definition SLOPE :: JSNumber where
  "SLOPE = rnd (1 / 10000)"

definition FUNDING_CAP :: JSNumber where
  "FUNDING_CAP = Fin 100000"

definition priceAtSupply :: "JSNumber \<Rightarrow> JSNumber" where
  "priceAtSupply supply = js_add BASE_PRICE (js_mul SLOPE supply)"

subsection \<open>The quote engine\<close>

text \<open>
  The loop of \<^verbatim>\<open>buyTokensQuote\<close> over its four variables. The \<^verbatim>\<open>break\<close> of the
  source is the inner \<open>else\<close> branch. The counters \<open>tokens\<close> and \<open>steps\<close> start at \<open>0\<close>
  and grow by \<open>1\<close> up to \<open>5000\<close>, where binary64 is exact: they are natural numbers.
\<close>

function buy_loop :: "nat \<Rightarrow> JSNumber \<Rightarrow> JSNumber \<Rightarrow> nat \<Rightarrow> nat" where
  "buy_loop tokens budget s steps =
     (if js_lt (Fin 0) budget \<and> steps < 5000 then
        (let p = priceAtSupply s in
         if js_le p budget
         then buy_loop (tokens + 1) (js_sub budget p) (js_add s (Fin 1)) (steps + 1)
         else tokens)
      else tokens)"
  by pat_completeness auto
termination
  by (relation "measure (\<lambda>(tokens, budget, s, steps). 5000 - steps)") auto

definition buyTokensQuote :: "JSNumber \<Rightarrow> JSNumber \<Rightarrow> nat" where
  "buyTokensQuote currentSupply amountIn = buy_loop 0 amountIn currentSupply 0"

text \<open>The loop of \<^verbatim>\<open>sellTokensQuote\<close> over \<open>s\<close>, \<open>t\<close>, \<open>out\<close> and \<open>steps\<close>.\<close>

function sell_loop :: "JSNumber \<Rightarrow> JSNumber \<Rightarrow> JSNumber \<Rightarrow> nat \<Rightarrow> JSNumber" where
  "sell_loop s t out steps =
     (if js_lt (Fin 0) t \<and> js_le (Fin 0) s \<and> steps < 5000 then
        (let p = priceAtSupply s in
         sell_loop (js_sub s (Fin 1)) (js_sub t (Fin 1)) (js_add out p) (steps + 1))
      else out)"
  by pat_completeness auto
termination
  by (relation "measure (\<lambda>(s, t, out, steps). 5000 - steps)") auto

definition sellTokensQuote :: "JSNumber \<Rightarrow> JSNumber \<Rightarrow> JSNumber" where
  "sellTokensQuote currentSupply tokensIn =
     sell_loop (js_max (Fin 0) (js_sub currentSupply (Fin 1))) tokensIn (Fin 0) 0"


fun budget_after :: "JSNumber \<Rightarrow> JSNumber \<Rightarrow> nat \<Rightarrow> JSNumber" where
  "budget_after f s 0 = f"
| "budget_after f s (Suc n) = budget_after (js_sub f (priceAtSupply s)) (js_add s (Fin 1)) n"


text \<open>The sum of a list of numbers, added from left to right as \<^verbatim>\<open>out += p\<close> adds them.\<close>

definition js_sum :: "JSNumber list \<Rightarrow> JSNumber" where
  "js_sum xs = foldl js_add (Fin 0) xs"

subsection \<open>The data model\<close>

text \<open>
  The object types of the server. Field names carry the prefix of their type
  (\<open>p_\<close>, \<open>h_\<close>, \<open>o_\<close>, \<open>m_\<close>, \<open>pr_\<close>), since several types share the names
  \<^verbatim>\<open>id\<close>, \<^verbatim>\<open>projectId\<close>, \<^verbatim>\<open>amount\<close>, \<^verbatim>\<open>status\<close> and \<^verbatim>\<open>createdAt\<close>.
\<close>

type_synonym UserId = string
type_synonym ProjectId = string

record Project =
  p_id :: ProjectId
  p_founderId :: UserId
  p_name :: string
  p_videoUrl :: "string option"
  p_summary :: string
  p_resumesUrl :: "string option"
  p_plan :: string
  p_createdAt :: nat
  p_supply :: JSNumber
  p_reserve :: JSNumber
  p_capReached :: bool
  p_tokenSymbol :: "string option"
  p_fundingGoal :: JSNumber

record Holding =
  h_userId :: UserId
  h_projectId :: ProjectId
  h_balance :: JSNumber

datatype OfferStatus = OfferOpen | OfferFilled | OfferCancelled

record Offer =
  o_id :: string
  o_projectId :: ProjectId
  o_sellerId :: UserId
  o_pricePerToken :: JSNumber
  o_amount :: JSNumber
  o_createdAt :: nat
  o_status :: OfferStatus

datatype MilestoneStatus = Pending | Released

record Milestone =
  m_id :: string
  m_projectId :: ProjectId
  m_title :: string
  m_description :: string
  m_amount :: JSNumber
  m_status :: MilestoneStatus
  m_createdAt :: nat

record Proposal =
  pr_id :: string
  pr_projectId :: ProjectId
  pr_milestoneId :: string
  pr_amount :: JSNumber
  pr_approvals :: JSNumber
  pr_rejections :: JSNumber
  pr_released :: bool
  pr_createdAt :: nat

text \<open>The in-memory stores: five maps, in insertion order.\<close>

record State =
  projects :: "(ProjectId \<times> Project) list"
  holdings :: "(string \<times> Holding) list"
  offers :: "(string \<times> Offer) list"
  milestones :: "(string \<times> Milestone) list"
  proposals :: "(string \<times> Proposal) list"

definition init_state :: State where
  "init_state = \<lparr>projects = [], holdings = [], offers = [], milestones = [], proposals = []\<rparr>"

text \<open>The key of a holding: the template string \<^verbatim>\<open>`${userId}:${projectId}`\<close>.\<close>

definition holdingKey :: "UserId \<Rightarrow> ProjectId \<Rightarrow> string" where
  "holdingKey userId projectId = userId @ '':'' @ projectId"

text \<open>
  The failures of the handlers, named as the specification names them. The source
  answers with a status and a message:
  \<^item> \<open>NotFound\<close>: 404 \<^verbatim>\<open>not found\<close>, \<^verbatim>\<open>offer not found\<close>, \<^verbatim>\<open>proposal not found\<close>,
    \<^verbatim>\<open>milestone not found\<close>;
  \<^item> \<open>InvalidInput\<close>: 400 \<^verbatim>\<open>name, summary, plan required\<close>,
    \<^verbatim>\<open>title and amount > 0 required\<close>, \<^verbatim>\<open>invalid milestone\<close>, \<^verbatim>\<open>invalid amount\<close>;
  \<^item> \<open>InvalidAmount\<close>: 400 \<^verbatim>\<open>amount > 0 required\<close>, \<^verbatim>\<open>tokens > 0 required\<close>,
    \<^verbatim>\<open>pricePerToken and amount > 0 required\<close>;
  \<^item> \<open>CapReached\<close>: 400 \<^verbatim>\<open>funding cap reached\<close>;
  \<^item> \<open>QuoteTooSmall\<close>: 400 \<^verbatim>\<open>amount too small for current price\<close>;
  \<^item> \<open>InsufficientBalance\<close>: 400 \<^verbatim>\<open>insufficient balance\<close>;
  \<^item> \<open>OfferNotOpen\<close>: 400 \<^verbatim>\<open>offer not open\<close>;
  \<^item> \<open>Forbidden\<close>: 403 \<^verbatim>\<open>only founder can ...\<close>;
  \<^item> \<open>AlreadyReleased\<close>: 400 \<^verbatim>\<open>already released\<close>;
  \<^item> \<open>NotApproved\<close>: 400 \<^verbatim>\<open>not approved yet\<close>.
\<close>

datatype Error =
    NotFound | InvalidInput | InvalidAmount | CapReached | QuoteTooSmall
  | InsufficientBalance | OfferNotOpen | Forbidden | AlreadyReleased | NotApproved

text \<open>What a handler sends back: a failure, or the JSON body of the success.\<close>

datatype Response =
    Failure Error
  | ProjectCreated Project
  | Bought Project nat
  | Sold Project JSNumber
  | OfferCreated Offer
  | OfferFill Offer
  | MilestoneCreated Milestone
  | ProposalCreated Proposal
  | Voted Proposal
  | FundsReleased Project Proposal Milestone JSNumber

text \<open>The fields of the body of \<^verbatim>\<open>POST /projects\<close>. An absent or empty string is falsy.\<close>

record ProjectBody =
  b_name :: string
  b_videoUrl :: "string option"
  b_summary :: string
  b_resumesUrl :: "string option"
  b_plan :: string
  b_tokenSymbol :: "string option"
  b_fundingGoal :: "JSNumber option"

subsection \<open>The handlers\<close>

text \<open>
  Each handler takes the stores and returns them with its response. A handler of the source
  mutates the object it got from a map in place; the model writes the changed object back
  under the key it was read from, and then performs the \<^verbatim>\<open>set\<close> calls of the source.
\<close>

text \<open>\<^verbatim>\<open>POST /projects\<close>; \<open>newId\<close> is the result of \<^verbatim>\<open>nanoid(8)\<close>, \<open>now\<close> of \<^verbatim>\<open>Date.now()\<close>.\<close>

definition createProject :: "State \<Rightarrow> UserId \<Rightarrow> ProjectBody \<Rightarrow> ProjectId \<Rightarrow> nat \<Rightarrow> State \<times> Response" where
  "createProject st userId body newId now =
     (if b_name body = [] \<or> b_summary body = [] \<or> b_plan body = [] then (st, Failure InvalidInput)
      else
        let project = \<lparr>p_id = newId, p_founderId = userId, p_name = b_name body,
              p_videoUrl = b_videoUrl body, p_summary = b_summary body,
              p_resumesUrl = b_resumesUrl body, p_plan = b_plan body, p_createdAt = now,
              p_supply = Fin 0, p_reserve = Fin 0, p_capReached = False,
              p_tokenSymbol = b_tokenSymbol body,
              p_fundingGoal = (case b_fundingGoal body of
                                 Some g \<Rightarrow> if js_lt (Fin 0) g then g else FUNDING_CAP
                               | None \<Rightarrow> FUNDING_CAP)\<rparr>;
            founderKey = holdingKey userId newId;
            founderHolding = (case map_of (holdings st) founderKey of
                                Some h \<Rightarrow> h
                              | None \<Rightarrow> \<lparr>h_userId = userId, h_projectId = newId, h_balance = Fin 0\<rparr>);
            founderHolding' = founderHolding\<lparr>h_balance := js_add (h_balance founderHolding) (Fin 100)\<rparr>;
            project' = project\<lparr>p_supply := js_add (p_supply project) (Fin 100)\<rparr>
        in (st\<lparr>projects := AList.update newId project' (projects st),
                holdings := AList.update founderKey founderHolding' (holdings st)\<rparr>,
            ProjectCreated project'))"

text \<open>\<^verbatim>\<open>POST /projects/:id/buy\<close>.\<close>

definition buy :: "State \<Rightarrow> UserId \<Rightarrow> ProjectId \<Rightarrow> JSNumber \<Rightarrow> State \<times> Response" where
  "buy st userId pid amount =
     (case map_of (projects st) pid of
        None \<Rightarrow> (st, Failure NotFound)
      | Some p \<Rightarrow>
          if p_capReached p then (st, Failure CapReached)
          else if js_le amount (Fin 0) then (st, Failure InvalidAmount)
          else
            let tokensOut = buyTokensQuote (p_supply p) amount in
            if tokensOut \<le> 0 then (st, Failure QuoteTooSmall)
            else
              let p1 = p\<lparr>p_supply := js_add (p_supply p) (Fin (of_nat tokensOut))\<rparr>;
                  p2 = p1\<lparr>p_reserve := js_add (p_reserve p1) amount\<rparr>;
                  p3 = (if js_le FUNDING_CAP (p_reserve p2) then p2\<lparr>p_capReached := True\<rparr> else p2);
                  key = holdingKey userId (p_id p3);
                  h = (case map_of (holdings st) key of
                         Some h \<Rightarrow> h
                       | None \<Rightarrow> \<lparr>h_userId = userId, h_projectId = p_id p3, h_balance = Fin 0\<rparr>);
                  h' = h\<lparr>h_balance := js_add (h_balance h) (Fin (of_nat tokensOut))\<rparr>
              in (st\<lparr>projects := AList.update pid p3 (projects st),
                      holdings := AList.update key h' (holdings st)\<rparr>,
                  Bought p3 tokensOut))"

text \<open>\<^verbatim>\<open>POST /projects/:id/sell\<close>.\<close>

definition sell :: "State \<Rightarrow> UserId \<Rightarrow> ProjectId \<Rightarrow> JSNumber \<Rightarrow> State \<times> Response" where
  "sell st userId pid tokens =
     (case map_of (projects st) pid of
        None \<Rightarrow> (st, Failure NotFound)
      | Some p \<Rightarrow>
          if js_le tokens (Fin 0) then (st, Failure InvalidAmount)
          else
            let key = holdingKey userId (p_id p) in
            (case map_of (holdings st) key of
               None \<Rightarrow> (st, Failure InsufficientBalance)
             | Some h \<Rightarrow>
                 if js_lt (h_balance h) tokens then (st, Failure InsufficientBalance)
                 else
                   let amountOut = sellTokensQuote (p_supply p) tokens;
                       p1 = p\<lparr>p_supply := js_max (Fin 0) (js_sub (p_supply p) tokens)\<rparr>;
                       p2 = p1\<lparr>p_reserve := js_max (Fin 0) (js_sub (p_reserve p1) amountOut)\<rparr>;
                       h' = h\<lparr>h_balance := js_sub (h_balance h) tokens\<rparr>
                   in (st\<lparr>projects := AList.update pid p2 (projects st),
                           holdings := AList.update key h' (holdings st)\<rparr>,
                       Sold p2 amountOut)))"

text \<open>\<^verbatim>\<open>POST /projects/:id/offers\<close>; \<open>newId\<close> is the result of \<^verbatim>\<open>nanoid(8)\<close>.\<close>

definition createOffer ::
  "State \<Rightarrow> UserId \<Rightarrow> ProjectId \<Rightarrow> JSNumber \<Rightarrow> JSNumber \<Rightarrow> string \<Rightarrow> nat \<Rightarrow> State \<times> Response" where
  "createOffer st userId pid pricePerToken amount newId now =
     (case map_of (projects st) pid of
        None \<Rightarrow> (st, Failure NotFound)
      | Some p \<Rightarrow>
          if js_le pricePerToken (Fin 0) \<or> js_le amount (Fin 0) then (st, Failure InvalidAmount)
          else
            let key = holdingKey userId (p_id p) in
            (case map_of (holdings st) key of
               None \<Rightarrow> (st, Failure InsufficientBalance)
             | Some h \<Rightarrow>
                 if js_lt (h_balance h) amount then (st, Failure InsufficientBalance)
                 else
                   let h' = h\<lparr>h_balance := js_sub (h_balance h) amount\<rparr>;
                       offer = \<lparr>o_id = newId, o_projectId = p_id p, o_sellerId = userId,
                                o_pricePerToken = pricePerToken, o_amount = amount,
                                o_createdAt = now, o_status = OfferOpen\<rparr>
                   in (st\<lparr>holdings := AList.update key h' (holdings st),
                           offers := AList.update (o_id offer) offer (offers st)\<rparr>,
                       OfferCreated offer)))"

text \<open>\<^verbatim>\<open>POST /projects/:id/offers/:offerId/fill\<close>.\<close>

definition fillOffer :: "State \<Rightarrow> UserId \<Rightarrow> ProjectId \<Rightarrow> string \<Rightarrow> JSNumber \<Rightarrow> State \<times> Response" where
  "fillOffer st buyerId pid offerId amount =
     (case map_of (projects st) pid of
        None \<Rightarrow> (st, Failure NotFound)
      | Some p \<Rightarrow>
          (case map_of (offers st) offerId of
             None \<Rightarrow> (st, Failure NotFound)
           | Some offer \<Rightarrow>
               if o_projectId offer \<noteq> p_id p then (st, Failure NotFound)
               else if o_status offer \<noteq> OfferOpen \<or> js_le (o_amount offer) (Fin 0)
                 then (st, Failure OfferNotOpen)
               else
                 let take = js_max (Fin 0) (js_min (o_amount offer) amount) in
                 if js_le take (Fin 0) then (st, Failure InvalidAmount)
                 else
                   let buyerKey = holdingKey buyerId (p_id p);
                       buyerHolding = (case map_of (holdings st) buyerKey of
                                         Some h \<Rightarrow> h
                                       | None \<Rightarrow> \<lparr>h_userId = buyerId, h_projectId = p_id p, h_balance = Fin 0\<rparr>);
                       buyerHolding' = buyerHolding\<lparr>h_balance := js_add (h_balance buyerHolding) take\<rparr>;
                       offer1 = offer\<lparr>o_amount := js_sub (o_amount offer) take\<rparr>;
                       offer2 = (if o_amount offer1 = Fin 0 then offer1\<lparr>o_status := OfferFilled\<rparr> else offer1)
                   in (st\<lparr>holdings := AList.update buyerKey buyerHolding' (holdings st),
                           offers := AList.update (o_id offer2) offer2
                                       (AList.update offerId offer2 (offers st))\<rparr>,
                       OfferFill offer2)))"

text \<open>
  \<^verbatim>\<open>POST /projects/:id/milestones\<close>; \<open>title\<close> and \<open>description\<close> are the trimmed strings.
\<close>

definition createMilestone ::
  "State \<Rightarrow> UserId \<Rightarrow> ProjectId \<Rightarrow> string \<Rightarrow> string \<Rightarrow> JSNumber \<Rightarrow> string \<Rightarrow> nat \<Rightarrow> State \<times> Response" where
  "createMilestone st userId pid title description amount newId now =
     (case map_of (projects st) pid of
        None \<Rightarrow> (st, Failure NotFound)
      | Some p \<Rightarrow>
          if p_founderId p \<noteq> userId then (st, Failure Forbidden)
          else if title = [] \<or> js_le amount (Fin 0) then (st, Failure InvalidInput)
          else
            let m = \<lparr>m_id = newId, m_projectId = p_id p, m_title = title,
                     m_description = description, m_amount = amount, m_status = Pending,
                     m_createdAt = now\<rparr>
            in (st\<lparr>milestones := AList.update (m_id m) m (milestones st)\<rparr>, MilestoneCreated m))"

text \<open>\<^verbatim>\<open>POST /projects/:id/proposals\<close>.\<close>

definition createProposal ::
  "State \<Rightarrow> UserId \<Rightarrow> ProjectId \<Rightarrow> string \<Rightarrow> JSNumber \<Rightarrow> string \<Rightarrow> nat \<Rightarrow> State \<times> Response" where
  "createProposal st userId pid milestoneId amount newId now =
     (case map_of (projects st) pid of
        None \<Rightarrow> (st, Failure NotFound)
      | Some p \<Rightarrow>
          if p_founderId p \<noteq> userId then (st, Failure Forbidden)
          else
            (case map_of (milestones st) milestoneId of
               None \<Rightarrow> (st, Failure InvalidInput)
             | Some m \<Rightarrow>
                 if m_projectId m \<noteq> p_id p then (st, Failure InvalidInput)
                 else if js_le amount (Fin 0) \<or> js_lt (m_amount m) amount
                   then (st, Failure InvalidInput)
                 else
                   let pr = \<lparr>pr_id = newId, pr_projectId = p_id p, pr_milestoneId = milestoneId,
                             pr_amount = amount, pr_approvals = Fin 0, pr_rejections = Fin 0,
                             pr_released = False, pr_createdAt = now\<rparr>
                   in (st\<lparr>proposals := AList.update (pr_id pr) pr (proposals st)\<rparr>,
                       ProposalCreated pr)))"

text \<open>\<^verbatim>\<open>POST /projects/:id/proposals/:proposalId/vote\<close>.\<close>

definition vote :: "State \<Rightarrow> ProjectId \<Rightarrow> string \<Rightarrow> bool \<Rightarrow> State \<times> Response" where
  "vote st pid proposalId approve =
     (case map_of (projects st) pid of
        None \<Rightarrow> (st, Failure NotFound)
      | Some p \<Rightarrow>
          (case map_of (proposals st) proposalId of
             None \<Rightarrow> (st, Failure NotFound)
           | Some pr \<Rightarrow>
               if pr_projectId pr \<noteq> p_id p then (st, Failure NotFound)
               else
                 let pr' = (if approve then pr\<lparr>pr_approvals := js_add (pr_approvals pr) (Fin 1)\<rparr>
                            else pr\<lparr>pr_rejections := js_add (pr_rejections pr) (Fin 1)\<rparr>)
                 in (st\<lparr>proposals := AList.update (pr_id pr') pr'
                                         (AList.update proposalId pr' (proposals st))\<rparr>,
                     Voted pr')))"

text \<open>\<^verbatim>\<open>POST /projects/:id/proposals/:proposalId/release\<close>.\<close>

definition release :: "State \<Rightarrow> UserId \<Rightarrow> ProjectId \<Rightarrow> string \<Rightarrow> State \<times> Response" where
  "release st userId pid proposalId =
     (case map_of (projects st) pid of
        None \<Rightarrow> (st, Failure NotFound)
      | Some p \<Rightarrow>
          if p_founderId p \<noteq> userId then (st, Failure Forbidden)
          else
            (case map_of (proposals st) proposalId of
               None \<Rightarrow> (st, Failure NotFound)
             | Some pr \<Rightarrow>
                 if pr_projectId pr \<noteq> p_id p then (st, Failure NotFound)
                 else
                   (case map_of (milestones st) (pr_milestoneId pr) of
                      None \<Rightarrow> (st, Failure NotFound)
                    | Some m \<Rightarrow>
                        if pr_released pr then (st, Failure AlreadyReleased)
                        else if js_lt (pr_approvals pr) (Fin 1) \<or>
                                js_le (pr_approvals pr) (pr_rejections pr)
                          then (st, Failure NotApproved)
                        else
                          let amount = js_min (pr_amount pr) (p_reserve p);
                              p1 = p\<lparr>p_reserve := js_max (Fin 0) (js_sub (p_reserve p) amount)\<rparr>;
                              p2 = (if js_lt (p_reserve p1) FUNDING_CAP then p1\<lparr>p_capReached := False\<rparr> else p1);
                              pr' = pr\<lparr>pr_released := True\<rparr>;
                              m' = m\<lparr>m_status := Released\<rparr>
                          in (st\<lparr>projects := AList.update pid p2 (projects st),
                                  proposals := AList.update (pr_id pr') pr'
                                                 (AList.update proposalId pr' (proposals st)),
                                  milestones := AList.update (m_id m') m'
                                                  (AList.update (pr_milestoneId pr) m' (milestones st))\<rparr>,
                              FundsReleased p2 pr' m' amount))))"

subsection \<open>Sequences of requests\<close>

datatype Op =
    CreateProjectOp UserId ProjectBody ProjectId nat
  | BuyOp UserId ProjectId JSNumber
  | SellOp UserId ProjectId JSNumber
  | CreateOfferOp UserId ProjectId JSNumber JSNumber string nat
  | FillOp UserId ProjectId string JSNumber
  | CreateMilestoneOp UserId ProjectId string string JSNumber string nat
  | CreateProposalOp UserId ProjectId string JSNumber string nat
  | VoteOp ProjectId string bool
  | ReleaseOp UserId ProjectId string

fun step :: "State \<Rightarrow> Op \<Rightarrow> State \<times> Response" where
  "step st (CreateProjectOp userId body newId now) = createProject st userId body newId now"
| "step st (BuyOp userId pid amount) = buy st userId pid amount"
| "step st (SellOp userId pid tokens) = sell st userId pid tokens"
| "step st (CreateOfferOp userId pid pricePerToken amount newId now) =
     createOffer st userId pid pricePerToken amount newId now"
| "step st (FillOp buyerId pid offerId amount) = fillOffer st buyerId pid offerId amount"
| "step st (CreateMilestoneOp userId pid title description amount newId now) =
     createMilestone st userId pid title description amount newId now"
| "step st (CreateProposalOp userId pid milestoneId amount newId now) =
     createProposal st userId pid milestoneId amount newId now"
| "step st (VoteOp pid proposalId approve) = vote st pid proposalId approve"
| "step st (ReleaseOp userId pid proposalId) = release st userId pid proposalId"

fun run :: "State \<Rightarrow> Op list \<Rightarrow> State" where
  "run st [] = st"
| "run st (op # ops) = run (fst (step st op)) ops"

text \<open>
  What \<^verbatim>\<open>nanoid(8)\<close> is relied on for: an identifier of eight characters that is not a key
  of the map it is stored in.
\<close>

fun fresh_id :: "State \<Rightarrow> Op \<Rightarrow> bool" where
  "fresh_id st (CreateProjectOp userId body newId now) =
     (length newId = 8 \<and> newId \<notin> fst ` set (projects st))"
| "fresh_id st (CreateOfferOp userId pid pricePerToken amount newId now) =
     (length newId = 8 \<and> newId \<notin> fst ` set (offers st))"
| "fresh_id st (CreateMilestoneOp userId pid title description amount newId now) =
     (length newId = 8 \<and> newId \<notin> fst ` set (milestones st))"
| "fresh_id st (CreateProposalOp userId pid milestoneId amount newId now) =
     (length newId = 8 \<and> newId \<notin> fst ` set (proposals st))"
| "fresh_id st _ = True"

fun fresh_ids :: "State \<Rightarrow> Op list \<Rightarrow> bool" where
  "fresh_ids st [] = True"
| "fresh_ids st (op # ops) = (fresh_id st op \<and> fresh_ids (fst (step st op)) ops)"

subsection \<open>Token totals and the invariant of the stores\<close>

definition total :: "('v \<Rightarrow> real) \<Rightarrow> ('k \<times> 'v) list \<Rightarrow> real" where
  "total f al = sum_list (map (\<lambda>kv. f (snd kv)) al)"

definition holdingWeight :: "ProjectId \<Rightarrow> Holding \<Rightarrow> real" where
  "holdingWeight pid h = (if h_projectId h = pid then val (h_balance h) else 0)"

definition offerWeight :: "ProjectId \<Rightarrow> Offer \<Rightarrow> real" where
  "offerWeight pid offer =
     (if o_projectId offer = pid \<and> o_status offer = OfferOpen then val (o_amount offer) else 0)"

text \<open>The exact sum of the balances of all holdings of a project.\<close>

definition holdingsTotal :: "ProjectId \<Rightarrow> (string \<times> Holding) list \<Rightarrow> real" where
  "holdingsTotal pid hs = total (holdingWeight pid) hs"

text \<open>The exact sum of the amounts of the open offers of a project.\<close>

definition openOffersTotal :: "ProjectId \<Rightarrow> (string \<times> Offer) list \<Rightarrow> real" where
  "openOffersTotal pid os = total (offerWeight pid) os"

text \<open>The requests that move whole numbers of tokens: what is sold, escrowed or taken.\<close>

fun whole_amounts :: "Op \<Rightarrow> bool" where
  "whole_amounts (SellOp userId pid tokens) = whole tokens"
| "whole_amounts (CreateOfferOp userId pid pricePerToken amount newId now) = whole amount"
| "whole_amounts (FillOp buyerId pid offerId amount) = whole amount"
| "whole_amounts _ = True"

text \<open>Every balance and every escrowed amount in the stores is a whole number.\<close>

definition balances_whole :: "State \<Rightarrow> bool" where
  "balances_whole st =
     ((\<forall>(k, h) \<in> set (holdings st). whole (h_balance h)) \<and>
      (\<forall>(k, offer) \<in> set (offers st). whole (o_amount offer)))"

text \<open>
  The maps are well formed: keys are not repeated, every object is stored under its own
  key, project identifiers have eight characters, holdings and offers belong to projects
  that exist, every balance, escrowed amount and supply is a whole number, and no supply
  is above the bound \<open>n\<close>.
\<close>

definition projects_ok :: "nat \<Rightarrow> (ProjectId \<times> Project) list \<Rightarrow> bool" where
  "projects_ok n ps =
     (distinct (map fst ps) \<and>
      (\<forall>(k, p) \<in> set ps. p_id p = k \<and> length k = 8 \<and> whole (p_supply p) \<and>
         val (p_supply p) \<le> of_nat n))"

definition holdings_ok :: "(ProjectId \<times> Project) list \<Rightarrow> (string \<times> Holding) list \<Rightarrow> bool" where
  "holdings_ok ps hs =
     (distinct (map fst hs) \<and>
      (\<forall>(k, h) \<in> set hs.
         k = holdingKey (h_userId h) (h_projectId h) \<and>
         h_projectId h \<in> fst ` set ps \<and> whole (h_balance h)))"

definition offers_ok :: "(ProjectId \<times> Project) list \<Rightarrow> (string \<times> Offer) list \<Rightarrow> bool" where
  "offers_ok ps os =
     (distinct (map fst os) \<and>
      (\<forall>(k, offer) \<in> set os.
         o_id offer = k \<and> o_projectId offer \<in> fst ` set ps \<and> whole (o_amount offer)))"

text \<open>Conservation: for every project, holdings plus open offers make up the supply.\<close>

definition conserved ::
  "(ProjectId \<times> Project) list \<Rightarrow> (string \<times> Holding) list \<Rightarrow> (string \<times> Offer) list \<Rightarrow> bool" where
  "conserved ps hs os =
     (\<forall>(k, p) \<in> set ps. holdingsTotal k hs + openOffersTotal k os = val (p_supply p))"

definition Inv :: "nat \<Rightarrow> State \<Rightarrow> bool" where
  "Inv n st =
     (projects_ok n (projects st) \<and> holdings_ok (projects st) (holdings st) \<and>
      offers_ok (projects st) (offers st) \<and>
      conserved (projects st) (holdings st) (offers st))"

text \<open>Every offer is stored under its own identifier.\<close>

definition offers_keyed :: "State \<Rightarrow> bool" where
  "offers_keyed st = (\<forall>(k, offer) \<in> set (offers st). o_id offer = k)"

text \<open>The balance that a lookup of the source finds under a key, \<open>0\<close> when there is none.\<close>

definition balanceOf :: "(string \<times> Holding) list \<Rightarrow> string \<Rightarrow> JSNumber" where
  "balanceOf hs key = (case map_of hs key of None \<Rightarrow> Fin 0 | Some h \<Rightarrow> h_balance h)"

text \<open>The requests that fill a given offer, and the release requests.\<close>

fun fills :: "string \<Rightarrow> Op \<Rightarrow> bool" where
  "fills oid (FillOp buyerId pid offerId amount) = (offerId = oid)"
| "fills oid _ = False"

fun is_release :: "Op \<Rightarrow> bool" where
  "is_release (ReleaseOp userId pid proposalId) = True"
| "is_release _ = False"

subsection \<open>A small run of the server\<close>

text \<open>
  A founder submits a project and a backer buys for \<^verbatim>\<open>0.05\<close>, which is the number
  \<open>rnd (1 / 20)\<close>: at supply \<open>100\<close> the prices are \<^verbatim>\<open>0.02\<close>, \<^verbatim>\<open>0.0201\<close> and
  \<^verbatim>\<open>0.020200000000000003\<close>, so two tokens are minted.
\<close>

definition demo_body :: ProjectBody where
  "demo_body = \<lparr>b_name = ''Aurora'', b_videoUrl = None, b_summary = ''vision'',
     b_resumesUrl = None, b_plan = ''pilot'', b_tokenSymbol = None, b_fundingGoal = None\<rparr>"

definition demo_ops :: "Op list" where
  "demo_ops = [CreateProjectOp ''founder'' demo_body ''proj0001'' 0,
               BuyOp ''alice'' ''proj0001'' (rnd (1 / 20))]"

definition demo_project :: Project where
  "demo_project = \<lparr>p_id = ''proj0001'', p_founderId = ''founder'', p_name = ''Aurora'',
     p_videoUrl = None, p_summary = ''vision'', p_resumesUrl = None, p_plan = ''pilot'',
     p_createdAt = 0, p_supply = Fin 102,
     p_reserve = Fin (3602879701896397 / 72057594037927936), p_capReached = False,
     p_tokenSymbol = None, p_fundingGoal = Fin 100000\<rparr>"

definition demo_state :: State where
  "demo_state = \<lparr>projects = [(''proj0001'', demo_project)],
     holdings = [(''founder:proj0001'',
                    \<lparr>h_userId = ''founder'', h_projectId = ''proj0001'', h_balance = Fin 100\<rparr>),
                 (''alice:proj0001'',
                    \<lparr>h_userId = ''alice'', h_projectId = ''proj0001'', h_balance = Fin 2\<rparr>)],
     offers = [], milestones = [], proposals = []\<rparr>"

text \<open>The project after the backer has sold one token back, for \<^verbatim>\<open>0.0201\<close>.\<close>

definition resold_project :: Project where
  "resold_project = demo_project\<lparr>p_supply := Fin 101,
     p_reserve := Fin (4309044123468091 / 144115188075855872)\<rparr>"

definition market_ops :: "Op list" where
  "market_ops = demo_ops @ [CreateOfferOp ''alice'' ''proj0001'' (Fin 1) (Fin 2) ''offer001'' 1]"

text \<open>The backer has listed both tokens: her balance is \<open>0\<close>, the offer holds \<open>2\<close>.\<close>

definition escrow_state :: State where
  "escrow_state = \<lparr>projects = [(''proj0001'', demo_project)],
     holdings = [(''founder:proj0001'',
                    \<lparr>h_userId = ''founder'', h_projectId = ''proj0001'', h_balance = Fin 100\<rparr>),
                 (''alice:proj0001'',
                    \<lparr>h_userId = ''alice'', h_projectId = ''proj0001'', h_balance = Fin 0\<rparr>)],
     offers = [(''offer001'',
                  \<lparr>o_id = ''offer001'', o_projectId = ''proj0001'', o_sellerId = ''alice'',
                     o_pricePerToken = Fin 1, o_amount = Fin 2, o_createdAt = 1,
                     o_status = OfferOpen\<rparr>)],
     milestones = [], proposals = []\<rparr>"

text \<open>Requests of the seller that do not fill her offer.\<close>

definition seller_ops :: "Op list" where
  "seller_ops = [BuyOp ''alice'' ''proj0001'' (rnd (1 / 20)), SellOp ''alice'' ''proj0001'' (Fin 1)]"

text \<open>A second backer fills half of the offer and sells the token back to the curve.\<close>

definition trade_ops :: "Op list" where
  "trade_ops = market_ops @ [FillOp ''bob'' ''proj0001'' ''offer001'' (Fin 1),
                             SellOp ''bob'' ''proj0001'' (Fin 1)]"

text \<open>
  The backer sells a tenth of a token, twice; \<open>rnd (1 / 10)\<close> is the number \<^verbatim>\<open>0.1\<close>.
  The supply becomes \<^verbatim>\<open>101.80000000000001\<close> and her balance \<^verbatim>\<open>1.7999999999999998\<close>.
\<close>

definition drift_ops :: "Op list" where
  "drift_ops = demo_ops @ [SellOp ''alice'' ''proj0001'' (rnd (1 / 10)),
                           SellOp ''alice'' ''proj0001'' (rnd (1 / 10))]"

definition drift_state :: State where
  "drift_state = \<lparr>projects = [(''proj0001'',
       demo_project\<lparr>p_supply := Fin (1790884539321549 / 17592186044416),
                    p_reserve := Fin (706884997512073 / 72057594037927936)\<rparr>)],
     holdings = [(''founder:proj0001'',
                    \<lparr>h_userId = ''founder'', h_projectId = ''proj0001'', h_balance = Fin 100\<rparr>),
                 (''alice:proj0001'',
                    \<lparr>h_userId = ''alice'', h_projectId = ''proj0001'',
                      h_balance = Fin (2026619832316723 / 1125899906842624)\<rparr>)],
     offers = [], milestones = [], proposals = []\<rparr>"

text \<open>
  A project submitted with a funding goal of its own, \<^verbatim>\<open>0.04\<close>, and the purchase for
  \<^verbatim>\<open>0.05\<close> that takes its reserve past that goal.
\<close>

definition goal_body :: ProjectBody where
  "goal_body = \<lparr>b_name = ''Borealis'', b_videoUrl = None, b_summary = ''robots'',
     b_resumesUrl = None, b_plan = ''pilot'', b_tokenSymbol = None,
     b_fundingGoal = Some (rnd (1 / 25))\<rparr>"

definition goal_ops :: "Op list" where
  "goal_ops = [CreateProjectOp ''founder'' goal_body ''proj0002'' 0]"

definition goal_project :: Project where
  "goal_project = \<lparr>p_id = ''proj0002'', p_founderId = ''founder'', p_name = ''Borealis'',
     p_videoUrl = None, p_summary = ''robots'', p_resumesUrl = None, p_plan = ''pilot'',
     p_createdAt = 0, p_supply = Fin 100, p_reserve = Fin 0, p_capReached = False,
     p_tokenSymbol = None, p_fundingGoal = Fin (5764607523034235 / 144115188075855872)\<rparr>"

definition goal_state :: State where
  "goal_state = \<lparr>projects = [(''proj0002'', goal_project)],
     holdings = [(''founder:proj0002'',
                    \<lparr>h_userId = ''founder'', h_projectId = ''proj0002'', h_balance = Fin 100\<rparr>)],
     offers = [], milestones = [], proposals = []\<rparr>"

definition funded_project :: Project where
  "funded_project = goal_project\<lparr>p_supply := Fin 102,
     p_reserve := Fin (3602879701896397 / 72057594037927936)\<rparr>"

definition funded_state :: State where
  "funded_state =
     \<lparr>projects = [(''proj0002'', funded_project)],
      holdings = [(''founder:proj0002'',
                     \<lparr>h_userId = ''founder'', h_projectId = ''proj0002'', h_balance = Fin 100\<rparr>),
                  (''alice:proj0002'',
                     \<lparr>h_userId = ''alice'', h_projectId = ''proj0002'', h_balance = Fin 2\<rparr>)],
      offers = [], milestones = [], proposals = []\<rparr>"

text \<open>The founder asks for \<^verbatim>\<open>0.01\<close> against a milestone, and one vote approves.\<close>

definition governance_ops :: "Op list" where
  "governance_ops =
     [CreateMilestoneOp ''founder'' ''proj0002'' ''beta'' [] (rnd (1 / 100)) ''mile0001'' 2,
      CreateProposalOp ''founder'' ''proj0002'' ''mile0001'' (rnd (1 / 100)) ''prop0001'' 3,
      VoteOp ''proj0002'' ''prop0001'' True]"

text \<open>A purchase for \<open>100000\<close> stops at the ceiling of the loop and reaches the cap.\<close>

definition launched_project :: Project where
  "launched_project = demo_project\<lparr>p_supply := Fin 5102,
     p_reserve := Fin (6871951109573837 / 68719476736), p_capReached := True\<rparr>"

definition launched_state :: State where
  "launched_state = \<lparr>projects = [(''proj0001'', launched_project)],
     holdings = [(''founder:proj0001'',
                    \<lparr>h_userId = ''founder'', h_projectId = ''proj0001'', h_balance = Fin 100\<rparr>),
                 (''alice:proj0001'',
                    \<lparr>h_userId = ''alice'', h_projectId = ''proj0001'', h_balance = Fin 2\<rparr>),
                 (''bob:proj0001'',
                    \<lparr>h_userId = ''bob'', h_projectId = ''proj0001'', h_balance = Fin 5000\<rparr>)],
     offers = [], milestones = [], proposals = []\<rparr>"

text \<open>The stores after the milestone, the proposal and the vote.\<close>

definition voted_proposal :: Proposal where
  "voted_proposal = \<lparr>pr_id = ''prop0001'', pr_projectId = ''proj0002'', pr_milestoneId = ''mile0001'',
            pr_amount = Fin (5764607523034235 / 576460752303423488), pr_approvals = Fin 1,
            pr_rejections = Fin 0, pr_released = False, pr_createdAt = 3\<rparr>"

definition beta_milestone :: Milestone where
  "beta_milestone = \<lparr>m_id = ''mile0001'', m_projectId = ''proj0002'', m_title = ''beta'',
            m_description = [], m_amount = Fin (5764607523034235 / 576460752303423488),
            m_status = Pending, m_createdAt = 2\<rparr>"

definition voted_state :: State where
  "voted_state = funded_state\<lparr>milestones := [(''mile0001'', beta_milestone)],
                              proposals := [(''prop0001'', voted_proposal)]\<rparr>"

text \<open>The project after the release of \<^verbatim>\<open>0.01\<close>: its reserve is \<^verbatim>\<open>0.04\<close>, its goal.\<close>

definition released_project :: Project where
  "released_project = funded_project\<lparr>p_reserve := Fin (5764607523034235 / 144115188075855872)\<rparr>"

section \<open>Rounding\<close>

lemma lg2_ge1:
  assumes "1 \<le> x"
  shows "2 powi lg2 x \<le> x \<and> x < 2 powi (lg2 x + 1)"
proof -
  define n where "n = nat \<lfloor>x\<rfloor>"
  define k where "k = floorlog 2 n"
  have n1: "1 \<le> n" using assms by (simp add: n_def le_nat_iff)
  then have b: "2 ^ (k - 1) \<le> n" "n < 2 ^ k"
    using floorlog_bounds [of n 2] by (simp_all add: k_def)
  have k1: "1 \<le> k" using b(2) n1 by (cases k) simp_all
  have l: "lg2 x = int k - 1" using assms by (simp add: lg2_def k_def n_def)
  have rn: "real n = of_int \<lfloor>x\<rfloor>" using assms by (simp add: n_def)
  have "(2::real) powi (int k - 1) = 2 ^ (k - 1)"
    using k1 power_int_of_nat [of "2::real" "k - 1"] by (simp add: of_nat_diff)
  moreover have "(2::real) ^ (k - 1) \<le> real n"
  proof -
    have "real (2 ^ (k - 1)) \<le> real n" using b(1) by (simp only: of_nat_le_iff)
    then show ?thesis by simp
  qed
  moreover have "real n \<le> x" by (simp add: rn)
  ultimately have 1: "2 powi lg2 x \<le> x" unfolding l by linarith
  have "n + 1 \<le> 2 ^ k" using b(2) by simp
  then have "real (n + 1) \<le> real (2 ^ k)" by (simp only: of_nat_le_iff)
  then have "real n + 1 \<le> 2 ^ k" by simp
  moreover have "x < real n + 1" unfolding rn by linarith
  ultimately have "x < 2 ^ k" by linarith
  then have 2: "x < 2 powi (lg2 x + 1)" by (simp add: l)
  from 1 2 show ?thesis ..
qed

lemma lg2_lt1:
  assumes "0 < x" and "x < 1"
  shows "2 powi lg2 x \<le> x \<and> x < 2 powi (lg2 x + 1)"
proof -
  define y where "y = 1 / x"
  define n where "n = nat (\<lceil>y\<rceil> - 1)"
  define k where "k = floorlog 2 n"
  have y1: "1 < y" using assms by (simp add: y_def)
  then have c2: "2 \<le> \<lceil>y\<rceil>" by (simp add: le_ceiling_iff)
  then have n1: "1 \<le> n" unfolding n_def by linarith
  then have b: "2 ^ (k - 1) \<le> n" "n < 2 ^ k"
    using floorlog_bounds [of n 2] by (simp_all add: k_def)
  have k1: "1 \<le> k" using b(2) n1 by (cases k) simp_all
  have l: "lg2 x = - int k" using assms by (simp add: lg2_def k_def n_def y_def)
  have rn: "real n = of_int \<lceil>y\<rceil> - 1" using c2 by (simp add: n_def)
  have "real (2 ^ (k - 1)) \<le> real n" using b(1) by (simp only: of_nat_le_iff)
  then have "(2::real) ^ (k - 1) \<le> real n" by simp
  moreover have "real n < y" unfolding rn by linarith
  ultimately have lo: "(2::real) ^ (k - 1) < y" by linarith
  have "n + 1 \<le> 2 ^ k" using b(2) by simp
  then have "real (n + 1) \<le> real (2 ^ k)" by (simp only: of_nat_le_iff)
  then have "real n + 1 \<le> 2 ^ k" by simp
  moreover have "y \<le> real n + 1" unfolding rn by linarith
  ultimately have hi: "y \<le> 2 ^ k" by linarith
  have p1: "(2::real) powi (- int k) = 1 / 2 ^ k"
    by (simp add: power_int_minus field_simps)
  have p2: "(2::real) powi (- int k + 1) = 1 / 2 ^ (k - 1)"
  proof -
    have "- int k + 1 = - int (k - 1)" using k1 by (simp add: of_nat_diff)
    then have "(2::real) powi (- int k + 1) = 2 powi (- int (k - 1))" by (simp only:)
    also have "\<dots> = 1 / 2 ^ (k - 1)" by (simp add: power_int_minus field_simps)
    finally show ?thesis .
  qed
  have "1 / 2 ^ k \<le> x"
    using hi assms(1) by (simp add: y_def field_simps)
  moreover have "x < 1 / 2 ^ (k - 1)"
    using lo assms(1) by (simp add: y_def field_simps)
  ultimately show ?thesis unfolding l p1 p2 by simp
qed

lemma lg2_bounds:
  assumes "0 < x"
  shows "2 powi lg2 x \<le> x" and "x < 2 powi (lg2 x + 1)"
  using lg2_ge1 [of x] lg2_lt1 [of x] assms by (cases "1 \<le> x"; simp)+

lemma lg2_le:
  assumes "0 < x" and "x < 2 powi k"
  shows "lg2 x < k"
proof (rule ccontr)
  assume "\<not> lg2 x < k"
  then have "k \<le> lg2 x" by simp
  then have "(2::real) powi k \<le> 2 powi lg2 x" by (intro power_int_increasing) simp_all
  with lg2_bounds(1) [OF assms(1)] assms(2) show False by simp
qed

lemma lg2_ge:
  assumes "2 powi k \<le> x"
  shows "k \<le> lg2 x"
proof (rule ccontr)
  assume "\<not> k \<le> lg2 x"
  then have "lg2 x + 1 \<le> k" by simp
  then have "(2::real) powi (lg2 x + 1) \<le> 2 powi k" by (intro power_int_increasing) simp_all
  moreover have "0 < x" using assms by (rule less_le_trans [rotated]) simp
  ultimately show False using lg2_bounds(2) [of x] assms by simp
qed

lemma round_even_bounds: "\<bar>of_int (round_even q) - q\<bar> \<le> 1 / 2"
  unfolding round_even_def Let_def by (auto simp: abs_le_iff; linarith)

lemma round_even_int [simp]: "round_even (of_int k) = k"
  by (simp add: round_even_def)

lemma round_even_ge:
  assumes "of_int N \<le> q"
  shows "N \<le> round_even q"
proof -
  have "N \<le> \<lfloor>q\<rfloor>" using assms by (simp add: le_floor_iff)
  then show ?thesis unfolding round_even_def Let_def by auto
qed

lemma round_even_le:
  assumes "q \<le> of_int N"
  shows "round_even q \<le> N"
proof (cases "q = of_int N")
  case True
  then show ?thesis by simp
next
  case False
  then have "q < of_int N" using assms by simp
  then have "\<lfloor>q\<rfloor> < N" by (simp add: floor_less_iff)
  then show ?thesis unfolding round_even_def Let_def by auto
qed

lemmas float_eval = rnd_def expo_def mant_def lg2_def round_even_def Let_def compute_floorlog
  power_int_minus

lemma mant_nonneg: "0 \<le> mant x"
  unfolding mant_def by (rule round_even_ge) simp

lemma mant_err: "\<bar>of_int (mant x) * 2 powi expo x - \<bar>x\<bar>\<bar> \<le> 2 powi expo x / 2"
proof -
  define q where "q = \<bar>x\<bar> / 2 powi expo x"
  define P where "P = (2::real) powi expo x"
  have pos: "0 < P" by (simp add: P_def)
  have "\<bar>of_int (mant x) - q\<bar> \<le> 1 / 2"
    unfolding mant_def q_def by (rule round_even_bounds)
  then have "\<bar>of_int (mant x) - q\<bar> * P \<le> 1 / 2 * P"
    using pos by (intro mult_right_mono) simp_all
  moreover have "\<bar>of_int (mant x) - q\<bar> * P = \<bar>of_int (mant x) * P - \<bar>x\<bar>\<bar>"
  proof -
    have "\<bar>of_int (mant x) - q\<bar> * P = \<bar>(of_int (mant x) - q) * P\<bar>"
      using pos by (simp add: abs_mult)
    also have "(of_int (mant x) - q) * P = of_int (mant x) * P - \<bar>x\<bar>"
      using pos by (simp add: q_def P_def field_simps)
    finally show ?thesis .
  qed
  ultimately have "\<bar>of_int (mant x) * P - \<bar>x\<bar>\<bar> \<le> P / 2" by linarith
  then show ?thesis by (simp only: P_def)
qed

text \<open>The rounded value when the mantissa stays below a bound that does not overflow.\<close>

lemma rnd_Fin:
  assumes "x \<noteq> 0" and "of_int (mant x) * (2::real) powi expo x < 2 ^ 1024"
  shows "rnd x = Fin (sgn x * (of_int (mant x) * 2 powi expo x))"
  using assms by (simp add: rnd_def)

lemma rnd_upper:
  assumes "0 < x" and "x \<le> of_int N * 2 powi expo x"
    and "of_int N * (2::real) powi expo x < 2 ^ 1024"
  shows "\<exists>y. rnd x = Fin y \<and> 0 \<le> y \<and> y \<le> of_int N * 2 powi expo x"
proof -
  have pos: "0 < (2::real) powi expo x" by simp
  have "\<bar>x\<bar> / 2 powi expo x \<le> of_int N"
    using assms(1,2) pos by (simp add: field_simps)
  then have "mant x \<le> N" unfolding mant_def by (rule round_even_le)
  then have "(of_int (mant x) :: real) \<le> of_int N" by simp
  then have le: "of_int (mant x) * (2::real) powi expo x \<le> of_int N * 2 powi expo x"
    using pos by (intro mult_right_mono) simp_all
  from le assms(3) have "of_int (mant x) * (2::real) powi expo x < 2 ^ 1024"
    by (rule le_less_trans)
  with assms(1) have "rnd x = Fin (sgn x * (of_int (mant x) * 2 powi expo x))"
    by (intro rnd_Fin) simp_all
  moreover have "0 \<le> of_int (mant x) * (2::real) powi expo x"
    using mant_nonneg [of x] by simp
  ultimately show ?thesis using assms(1) le by simp
qed

lemma pow2_split:
  assumes "e \<le> k"
  shows "(2::real) powi k = of_int (2 ^ nat (k - e)) * 2 powi e"
proof -
  have "(2::real) powi k = 2 powi ((k - e) + e)" by simp
  also have "\<dots> = 2 powi (k - e) * 2 powi e" by (subst power_int_add) simp_all
  also have "(2::real) powi (k - e) = 2 powi int (nat (k - e))" using assms by simp
  also have "\<dots> = 2 ^ nat (k - e)" by (rule power_int_of_nat)
  finally show ?thesis by simp
qed

lemma rnd_le_pow2:
  assumes "0 \<le> x" and "x \<le> 2 powi k" and "- 1074 \<le> k" and "k \<le> 1023"
  shows "\<exists>y. rnd x = Fin y \<and> 0 \<le> y \<and> y \<le> 2 powi k"
proof (cases "x = 0")
  case True
  then show ?thesis by (simp add: rnd_def)
next
  case False
  then have x: "0 < x" using assms(1) by simp
  have "x < 2 powi (k + 1)"
  proof -
    have "(2::real) powi k < 2 powi (k + 1)" by (intro power_int_strict_increasing) simp_all
    with assms(2) show ?thesis by simp
  qed
  then have "lg2 x < k + 1" using x by (intro lg2_le)
  then have e: "expo x \<le> k" using assms(3) x by (simp add: expo_def)
  have split: "(2::real) powi k = of_int (2 ^ nat (k - expo x)) * 2 powi expo x"
    using e by (rule pow2_split)
  have "(2::real) powi k \<le> 2 powi 1023" using assms(4) by (intro power_int_increasing) simp_all
  then have "(2::real) powi k < 2 ^ 1024" by simp
  with rnd_upper [OF x, of "2 ^ nat (k - expo x)"] assms(2) split show ?thesis by simp
qed



lemma rnd_ge_pow2:
  assumes "2 powi k \<le> x" and "- 1022 \<le> k"
  shows "rnd x = PosInf \<or> (\<exists>y. rnd x = Fin y \<and> 2 powi k \<le> y)"
proof -
  have x: "0 < x" using assms(1) by (rule less_le_trans [rotated]) simp
  have k: "k \<le> lg2 x" using assms(1) by (rule lg2_ge)
  then have e: "expo x = lg2 x - 52" using assms(2) x by (simp add: expo_def)
  have pos: "0 < (2::real) powi expo x" by simp
  have split: "(2::real) powi lg2 x = of_int (2 ^ nat (lg2 x - expo x)) * 2 powi expo x"
    by (rule pow2_split) (simp add: e)
  have n: "nat (lg2 x - expo x) = 52" by (simp add: e)
  have "of_int (2 ^ 52) * 2 powi expo x \<le> x"
    using lg2_bounds(1) [OF x] split n by simp
  then have "of_int (2 ^ 52) \<le> \<bar>x\<bar> / 2 powi expo x"
    using pos x by (simp add: field_simps)
  then have "2 ^ 52 \<le> mant x" unfolding mant_def by (rule round_even_ge)
  then have "(of_int (2 ^ 52) :: real) \<le> of_int (mant x)" by (simp only: of_int_le_iff)
  then have "of_int (2 ^ 52) * (2::real) powi expo x \<le> of_int (mant x) * 2 powi expo x"
    using pos by (intro mult_right_mono) simp_all
  then have "(2::real) powi lg2 x \<le> of_int (mant x) * 2 powi expo x"
    using split n by simp
  moreover have "(2::real) powi k \<le> 2 powi lg2 x"
    using k by (intro power_int_increasing) simp_all
  ultimately have "(2::real) powi k \<le> of_int (mant x) * 2 powi expo x" by (rule order_trans [rotated])
  then show ?thesis using x by (simp add: rnd_def)
qed

text \<open>A sum or product within a magnitude \<open>B\<close> is rounded with an error of at most \<open>B / 2^53\<close>.\<close>

lemma rnd_bound:
  assumes "\<bar>x\<bar> \<le> B" and "2 powi (- 1022) \<le> B" and "B \<le> 2 powi 1023"
  shows "\<exists>y. rnd x = Fin y \<and> \<bar>y - x\<bar> \<le> B / 2 ^ 53 \<and> (0 \<le> x \<longrightarrow> 0 \<le> y) \<and> (x \<le> 0 \<longrightarrow> y \<le> 0)"
proof (cases "x = 0")
  case True
  have "0 \<le> B" using assms(1) by simp
  then show ?thesis using True by (simp add: rnd_def)
next
  case False
  define a where "a = \<bar>x\<bar>"
  define P where "P = (2::real) powi expo x"
  define M where "M = (of_int (mant x) :: real)"
  have a: "0 < a" "a \<le> B" using False assms(1) by (simp_all add: a_def)
  have P: "0 < P" by (simp add: P_def)
  have M: "0 \<le> M" using mant_nonneg [of x] by (simp add: M_def)
  have err: "\<bar>M * P - a\<bar> \<le> P / 2"
    using mant_err [of x] by (simp only: M_def P_def a_def)
  have half: "P / 2 \<le> B / 2 ^ 53"
  proof (cases "- 1074 \<le> lg2 a - 52")
    case True
    then have "P = 2 powi (lg2 a - 52)" by (simp add: P_def expo_def a_def)
    also have "\<dots> = 2 powi lg2 a / 2 powi 52" by (subst power_int_diff) simp_all
    finally have "P / 2 = 2 powi lg2 a / 2 ^ 53" by simp
    moreover have "2 powi lg2 a \<le> a" using a(1) by (rule lg2_bounds)
    ultimately show ?thesis using a(2) by (simp add: field_simps)
  next
    case False
    then have "P = 2 powi (- 1074)" by (simp add: P_def expo_def a_def)
    then have "P / 2 = 2 powi (- 1022) / 2 ^ 53" by (simp add: power_int_minus)
    then show ?thesis using assms(2) by (simp add: field_simps power_int_minus)
  qed
  have "M * P \<le> a + P / 2" using err by linarith
  also have "\<dots> \<le> B + B / 2 ^ 53" using a(2) half by linarith
  also have "\<dots> \<le> 2 powi 1023 + 2 powi 1023 / 2 ^ 53" using assms(3) by (simp add: field_simps)
  also have "\<dots> < 2 ^ 1024" by simp
  finally have "M * P < 2 ^ 1024" .
  then have r: "rnd x = Fin (sgn x * (M * P))"
    using False unfolding M_def P_def by (intro rnd_Fin)
  have x: "x = sgn x * a" by (simp add: a_def sgn_if)
  have "sgn x * (M * P) - x = sgn x * (M * P - a)"
    by (subst (2) x) (simp add: algebra_simps)
  then have "\<bar>sgn x * (M * P) - x\<bar> = \<bar>M * P - a\<bar>"
    using False by (simp add: abs_mult sgn_if)
  then have 1: "\<bar>sgn x * (M * P) - x\<bar> \<le> B / 2 ^ 53" using err half by linarith
  have nn: "0 \<le> M * P" using M P by simp
  have 2: "0 \<le> x \<longrightarrow> 0 \<le> sgn x * (M * P)" using nn False by (simp add: sgn_if)
  have 3: "x \<le> 0 \<longrightarrow> sgn x * (M * P) \<le> 0" using nn False by (simp add: sgn_if)
  from r 1 2 3 show ?thesis by blast
qed

text \<open>Whole numbers up to \<open>2^53\<close> are binary64 values.\<close>

lemma rnd_int:
  assumes "\<bar>n\<bar> \<le> 2 ^ 53"
  shows "rnd (of_int n) = Fin (of_int n)"
proof (cases "n = 0")
  case True
  then show ?thesis by (simp add: rnd_def)
next
  case False
  define x where "x = (of_int n :: real)"
  define a where "a = \<bar>x\<bar>"
  have an: "a = of_int \<bar>n\<bar>" by (simp add: a_def x_def)
  have a1: "1 \<le> a" using False by (simp add: an)
  have a53: "a \<le> 2 ^ 53" using assms unfolding an by (metis of_int_le_iff of_int_numeral of_int_power)
  have x0: "x \<noteq> 0" using False by (simp add: x_def)
  have "(2::real) powi 0 \<le> a" using a1 by simp
  then have l0: "0 \<le> lg2 a" by (rule lg2_ge)
  have "a < 2 powi 54" using a53 by simp
  then have l54: "lg2 a < 54" using a1 by (intro lg2_le) simp_all
  have e: "expo x = lg2 a - 52" using l0 by (simp add: expo_def a_def)
  have "\<exists>m::int. a / 2 powi expo x = of_int m \<and> of_int m * (2::real) powi expo x = a"
  proof (cases "expo x \<le> 0")
    case True
    have "(2::real) powi 0 = of_int (2 ^ nat (0 - expo x)) * 2 powi expo x"
      using True by (rule pow2_split)
    then have p: "of_int (2 ^ nat (- expo x)) * (2::real) powi expo x = 1" by simp
    have pos: "0 < (2::real) powi expo x" by simp
    have "a / 2 powi expo x = a * of_int (2 ^ nat (- expo x))"
      using p pos by (simp add: field_simps)
    also have "\<dots> = of_int (\<bar>n\<bar> * 2 ^ nat (- expo x))" by (simp add: an)
    finally have 1: "a / 2 powi expo x = of_int (\<bar>n\<bar> * 2 ^ nat (- expo x))" .
    have "of_int (\<bar>n\<bar> * 2 ^ nat (- expo x)) * (2::real) powi expo x
          = a * (of_int (2 ^ nat (- expo x)) * 2 powi expo x)"
      by (simp add: an)
    also have "\<dots> = a" by (simp only: p mult_1_right)
    finally show ?thesis using 1 by blast
  next
    case False
    then have e1: "expo x = 1" using e l54 by simp
    then have "lg2 a = 53" using e by simp
    then have "2 powi 53 \<le> a" using lg2_bounds(1) [of a] a1 by simp
    then have "a = 2 ^ 53" using a53 by simp
    then have "a / 2 powi expo x = of_int (2 ^ 52) \<and> of_int (2 ^ 52) * (2::real) powi expo x = a"
      by (simp add: e1)
    then show ?thesis by blast
  qed
  then obtain m :: int where m: "a / 2 powi expo x = of_int m" "of_int m * (2::real) powi expo x = a"
    by blast
  have "mant x = m" unfolding mant_def using m(1) by (simp add: a_def)
  then have v: "of_int (mant x) * (2::real) powi expo x = a" using m(2) by simp
  have "a < 2 ^ 1024" using a53 by simp
  then have "rnd x = Fin (sgn x * (of_int (mant x) * 2 powi expo x))"
    using x0 v by (intro rnd_Fin) simp_all
  also have "sgn x * (of_int (mant x) * 2 powi expo x) = x"
    unfolding v by (simp add: a_def sgn_if)
  finally show ?thesis by (simp add: x_def)
qed

lemma rnd_nat:
  assumes "n \<le> 2 ^ 53"
  shows "rnd (of_nat n) = Fin (of_nat n)"
proof -
  have "int n \<le> int (2 ^ 53)" using assms by (simp only: of_nat_le_iff)
  then have "\<bar>int n\<bar> \<le> 2 ^ 53" by simp
  then have "rnd (of_int (int n)) = Fin (of_int (int n))" by (rule rnd_int)
  then show ?thesis by simp
qed

lemma rnd_nonneg:
  assumes "0 \<le> x"
  shows "rnd x = PosInf \<or> (\<exists>y. rnd x = Fin y \<and> 0 \<le> y)"
proof (cases "x = 0")
  case True
  then show ?thesis by (simp add: rnd_def)
next
  case False
  then have "0 < x" using assms by simp
  moreover have "0 \<le> of_int (mant x) * (2::real) powi expo x"
    using mant_nonneg [of x] by simp
  ultimately show ?thesis by (simp add: rnd_def)
qed

lemma pow2_range:
  assumes "- 1022 \<le> j" and "j \<le> 1023"
  shows "(2::real) powi (- 1022) \<le> 2 powi j" and "(2::real) powi j \<le> 2 powi 1023"
  using assms by (intro power_int_increasing; simp)+

lemma rnd_100: "rnd 100 = Fin 100"
  using rnd_nat [of 100] by simp

section \<open>Properties of the quote engine\<close>

subsection \<open>Prices and quotes of the example runs\<close>

declare buy_loop.simps [simp del]
declare sell_loop.simps [simp del]

lemma BASE_PRICE_val: "BASE_PRICE = Fin (5764607523034235 / 576460752303423488)"
  by (simp add: BASE_PRICE_def float_eval)

lemma SLOPE_val: "SLOPE = Fin (7378697629483821 / 73786976294838206464)"
  by (simp add: SLOPE_def float_eval)

lemmas price_eval = priceAtSupply_def BASE_PRICE_val SLOPE_val js_sub_def float_eval

lemma lit_005: "rnd (1 / 20) = Fin (3602879701896397 / 72057594037927936)"
  by (simp add: float_eval)

lemma lit_01: "rnd (1 / 10) = Fin (3602879701896397 / 36028797018963968)"
  by (simp add: float_eval)

lemma lit_004: "rnd (1 / 25) = Fin (5764607523034235 / 144115188075855872)"
  by (simp add: float_eval)

lemma lit_001: "rnd (1 / 100) = Fin (5764607523034235 / 576460752303423488)"
  by (simp add: float_eval)

lemma price_0: "priceAtSupply (Fin 0) = Fin (5764607523034235 / 576460752303423488)"
  by (simp add: price_eval)

lemma price_100: "priceAtSupply (Fin 100) = Fin (5764607523034235 / 288230376151711744)"
  by (simp add: price_eval)

lemma price_101: "priceAtSupply (Fin 101) = Fin (2896715280324703 / 144115188075855872)"
  by (simp add: price_eval)

lemma price_102: "priceAtSupply (Fin 102) = Fin (2911126799132289 / 144115188075855872)"
  by (simp add: price_eval)

lemma price_103: "priceAtSupply (Fin 103) = Fin (1462769158969937 / 72057594037927936)"
  by (simp add: price_eval)

lemma price_104: "priceAtSupply (Fin 104) = Fin (734987459186865 / 36028797018963968)"
  by (simp add: price_eval)

lemma buyTokensQuote_demo:
  "buyTokensQuote (Fin 100) (Fin (3602879701896397 / 72057594037927936)) = 2"
  by (simp add: buyTokensQuote_def buy_loop.simps price_100 price_101 price_102 js_sub_def
      float_eval)

lemma sellTokensQuote_demo:
  "sellTokensQuote (Fin 102) (Fin 1) = Fin (2896715280324703 / 144115188075855872)"
  by (simp add: sellTokensQuote_def sell_loop.simps price_101 js_sub_def js_max_def float_eval)

subsection \<open>The buying loop\<close>

lemma js_le_zero_cases:
  assumes "js_le (Fin 0) s"
  obtains "s = PosInf" | x where "s = Fin x" and "0 \<le> x"
  using assms by (cases s) simp_all


text \<open>A price at a level that is not negative is at least \<open>2^-7\<close>, or infinite.\<close>

lemma priceAtSupply_lower:
  assumes "js_le (Fin 0) s"
  shows "priceAtSupply s = PosInf \<or> (\<exists>pv. priceAtSupply s = Fin pv \<and> 2 powi (- 7) \<le> pv)"
proof -
  define b0 :: real where "b0 = 5764607523034235 / 576460752303423488"
  define sl :: real where "sl = 7378697629483821 / 73786976294838206464"
  have B: "BASE_PRICE = Fin b0" and S: "SLOPE = Fin sl"
    by (simp_all add: BASE_PRICE_val SLOPE_val b0_def sl_def)
  have b0: "2 powi (- 7) \<le> b0" by (simp add: b0_def power_int_minus)
  have sl: "0 < sl" by (simp add: sl_def)
  from assms show ?thesis
  proof (rule js_le_zero_cases)
    assume "s = PosInf"
    then show ?thesis using sl by (simp add: priceAtSupply_def B S)
  next
    fix x :: real
    assume s: "s = Fin x" and x: "0 \<le> x"
    have "0 \<le> sl * x" using sl x by simp
    from rnd_nonneg [OF this] show ?thesis
    proof
      assume "rnd (sl * x) = PosInf"
      then show ?thesis by (simp add: priceAtSupply_def B S s)
    next
      assume "\<exists>y. rnd (sl * x) = Fin y \<and> 0 \<le> y"
      then obtain y where y: "rnd (sl * x) = Fin y" "0 \<le> y" by blast
      have "2 powi (- 7) \<le> b0 + y" using b0 y(2) by linarith
      from rnd_ge_pow2 [OF this] y(1) show ?thesis
        by (simp add: priceAtSupply_def B S s)
    qed
  qed
qed

text \<open>A price at a level up to \<open>2^14\<close> is between \<open>2^-7\<close> and \<open>4\<close>.\<close>

lemma priceAtSupply_small:
  assumes "0 \<le> x" and "x \<le> 2 ^ 14"
  shows "\<exists>pv. priceAtSupply (Fin x) = Fin pv \<and> 2 powi (- 7) \<le> pv \<and> pv \<le> 4"
proof -
  define b0 :: real where "b0 = 5764607523034235 / 576460752303423488"
  define sl :: real where "sl = 7378697629483821 / 73786976294838206464"
  have B: "BASE_PRICE = Fin b0" and S: "SLOPE = Fin sl"
    by (simp_all add: BASE_PRICE_val SLOPE_val b0_def sl_def)
  have b0: "b0 \<le> 1 / 64" by (simp add: b0_def)
  have sl: "0 < sl" "sl \<le> 1 / 2 ^ 13" by (simp_all add: sl_def)
  have "sl * x \<le> 1 / 2 ^ 13 * 2 ^ 14"
    using sl assms by (intro mult_mono) simp_all
  then have m: "0 \<le> sl * x" "sl * x \<le> 2" using sl(1) assms(1) by simp_all
  have "\<exists>y. rnd (sl * x) = Fin y \<and> \<bar>y - sl * x\<bar> \<le> 2 / 2 ^ 53 \<and>
          (0 \<le> sl * x \<longrightarrow> 0 \<le> y) \<and> (sl * x \<le> 0 \<longrightarrow> y \<le> 0)"
    using m by (intro rnd_bound) (simp_all add: power_int_minus)
  then obtain y where y: "rnd (sl * x) = Fin y" "\<bar>y - sl * x\<bar> \<le> 2 / 2 ^ 53" "0 \<le> y"
    using m(1) by blast
  have small: "(2::real) / 2 ^ 53 \<le> 1" "(4::real) / 2 ^ 53 \<le> 1 / 2" by simp_all
  have y3: "y \<le> 3" using y(2) m(2) small(1) by linarith
  have "\<exists>pv. rnd (b0 + y) = Fin pv \<and> \<bar>pv - (b0 + y)\<bar> \<le> 4 / 2 ^ 53 \<and>
          (0 \<le> b0 + y \<longrightarrow> 0 \<le> pv) \<and> (b0 + y \<le> 0 \<longrightarrow> pv \<le> 0)"
    using y(3) y3 b0 by (intro rnd_bound) (simp_all add: power_int_minus b0_def)
  then obtain pv where pv: "rnd (b0 + y) = Fin pv" "\<bar>pv - (b0 + y)\<bar> \<le> 4 / 2 ^ 53" by blast
  have p: "priceAtSupply (Fin x) = Fin pv" by (simp add: priceAtSupply_def B S y(1) pv(1))
  have "pv \<le> 4" using pv(2) y3 b0 small(2) by linarith
  moreover have "2 powi (- 7) \<le> pv"
    using priceAtSupply_lower [of "Fin x"] assms(1) p by simp
  ultimately show ?thesis using p by blast
qed



lemma js_add_1_whole: "k < 2 ^ 53 \<Longrightarrow> js_add (Fin (of_nat k)) (Fin 1) = Fin (of_nat (Suc k))"
proof -
  assume "k < 2 ^ 53"
  then have "rnd (of_nat (Suc k)) = Fin (of_nat (Suc k))" by (intro rnd_nat) simp
  then show ?thesis by (simp add: add.commute)
qed

lemma buy_loop_step:
  "js_lt (Fin 0) budget \<Longrightarrow> steps < 5000 \<Longrightarrow> js_le (priceAtSupply s) budget \<Longrightarrow>
   buy_loop tokens budget s steps
   = buy_loop (tokens + 1) (js_sub budget (priceAtSupply s)) (js_add s (Fin 1)) (steps + 1)"
  by (subst buy_loop.simps) (simp add: Let_def)

text \<open>
  A budget between \<open>25000\<close> and \<open>2^44\<close> buys exactly 5000 tokens at levels up to \<open>2^14\<close>: the
  loop stops at its ceiling, and at least \<open>budget - 25000\<close> is left.
\<close>

lemma buy_loop_ceiling:
  "5 * real (5000 - steps) \<le> b \<Longrightarrow> b \<le> 2 ^ 44 \<Longrightarrow> k + (5000 - steps) \<le> 2 ^ 14 \<Longrightarrow>
   buy_loop tokens (Fin b) (Fin (of_nat k)) steps = tokens + (5000 - steps) \<and>
   (\<exists>b'. budget_after (Fin b) (Fin (of_nat k)) (5000 - steps) = Fin b' \<and>
      b - 5 * real (5000 - steps) \<le> b')"
proof (induction "5000 - steps" arbitrary: tokens b k steps)
  case 0
  then have "buy_loop tokens (Fin b) (Fin (of_nat k)) steps = tokens"
    by (subst buy_loop.simps) simp
  then show ?case using "0.hyps" [symmetric] by simp
next
  case (Suc m)
  have m: "5000 - steps = Suc m" using Suc.hyps(2) by simp
  then have st: "steps < 5000" "5000 - (steps + 1) = m" by simp_all
  have k: "k + Suc m \<le> 2 ^ 14" using Suc.prems(3) m by simp
  then have "real (k + Suc m) \<le> real (2 ^ 14)" by (simp only: of_nat_le_iff)
  then have "real k \<le> 2 ^ 14" by simp
  then have "\<exists>pv. priceAtSupply (Fin (real k)) = Fin pv \<and> 2 powi (- 7) \<le> pv \<and> pv \<le> 4"
    by (intro priceAtSupply_small) simp_all
  then obtain pv where pv: "priceAtSupply (Fin (real k)) = Fin pv" "1 / 2 ^ 7 \<le> pv" "pv \<le> 4"
    by (auto simp: power_int_minus field_simps)
  have b5: "5 * real (Suc m) \<le> b" using Suc.prems(1) m by simp
  then have b5': "5 + 5 * real m \<le> b" by (simp add: algebra_simps)
  have mnn: "0 \<le> real m" by simp
  have bpos: "0 < b" "pv \<le> b" using b5' mnn pv(3) by linarith+
  have "\<exists>y. rnd (b - pv) = Fin y \<and> \<bar>y - (b - pv)\<bar> \<le> 2 ^ 44 / 2 ^ 53 \<and>
          (0 \<le> b - pv \<longrightarrow> 0 \<le> y) \<and> (b - pv \<le> 0 \<longrightarrow> y \<le> 0)"
    using bpos pv(2) Suc.prems(2) by (intro rnd_bound) (simp_all add: power_int_minus)
  then obtain b1 where b1: "rnd (b - pv) = Fin b1" "\<bar>b1 - (b - pv)\<bar> \<le> 2 ^ 44 / 2 ^ 53"
    by blast
  have e: "(2::real) ^ 44 / 2 ^ 53 = 1 / 512" "(1::real) / 2 ^ 7 = 1 / 128" by simp_all
  have b1hi: "b1 \<le> 2 ^ 44" using b1(2) pv(2) Suc.prems(2) unfolding e by linarith
  have b1lo: "b - 5 \<le> b1" using b1(2) pv(3) unfolding e by linarith
  have b1m: "5 * real (5000 - (steps + 1)) \<le> b1" using b1lo b5' st(2) by simp
  have sub: "js_sub (Fin b) (priceAtSupply (Fin (real k))) = Fin b1"
    by (simp add: js_sub_def pv(1) b1(1))
  have s1: "js_add (Fin (real k)) (Fin 1) = Fin (real (Suc k))"
    using k by (intro js_add_1_whole) simp
  have k1: "Suc k + (5000 - (steps + 1)) \<le> 2 ^ 14" using k st(2) by simp
  have ih: "buy_loop (tokens + 1) (Fin b1) (Fin (real (Suc k))) (steps + 1)
              = tokens + 1 + (5000 - (steps + 1)) \<and>
            (\<exists>b'. budget_after (Fin b1) (Fin (real (Suc k))) (5000 - (steps + 1)) = Fin b' \<and>
               b1 - 5 * real (5000 - (steps + 1)) \<le> b')"
    using st(2) b1m b1hi k1 by (intro Suc.hyps(1)) simp_all
  have "buy_loop tokens (Fin b) (Fin (real k)) steps
        = buy_loop (tokens + 1) (js_sub (Fin b) (priceAtSupply (Fin (real k))))
            (js_add (Fin (real k)) (Fin 1)) (steps + 1)"
    using st(1) bpos by (intro buy_loop_step) (simp_all add: pv(1))
  then have "buy_loop tokens (Fin b) (Fin (real k)) steps
        = buy_loop (tokens + 1) (Fin b1) (Fin (real (Suc k))) (steps + 1)"
    by (simp only: sub s1)
  then have 1: "buy_loop tokens (Fin b) (Fin (real k)) steps = tokens + (5000 - steps)"
    using ih m st(2) by simp
  obtain b' where b': "budget_after (Fin b1) (Fin (real (Suc k))) m = Fin b'"
    "b1 - 5 * real m \<le> b'"
    using ih st(2) by auto
  have "budget_after (Fin b) (Fin (real k)) (Suc m)
        = budget_after (js_sub (Fin b) (priceAtSupply (Fin (real k))))
            (js_add (Fin (real k)) (Fin 1)) m"
    by (rule budget_after.simps)
  then have "budget_after (Fin b) (Fin (real k)) (Suc m) = Fin b'"
    by (simp only: sub s1 b'(1))
  moreover have "b - 5 * real (Suc m) \<le> b'" using b'(2) b1lo by (simp add: algebra_simps)
  ultimately show ?case using 1 m by simp
qed

lemma buyTokensQuote_ceiling:
  assumes "25000 \<le> f" and "f \<le> 2 ^ 44" and "k + 5000 \<le> 2 ^ 14"
  shows "buyTokensQuote (Fin (of_nat k)) (Fin f) = 5000"
    and "\<exists>b'. budget_after (Fin f) (Fin (of_nat k)) 5000 = Fin b' \<and> f - 25000 \<le> b'"
  using buy_loop_ceiling [of 0 f k 0] assms by (simp_all add: buyTokensQuote_def)






subsection \<open>The selling loop\<close>

lemma sell_loop_stop:
  "\<not> (js_lt (Fin 0) t \<and> js_le (Fin 0) s \<and> steps < 5000) \<Longrightarrow> sell_loop s t out steps = out"
  by (subst sell_loop.simps) auto

lemma sell_loop_step:
  "js_lt (Fin 0) t \<Longrightarrow> js_le (Fin 0) s \<Longrightarrow> steps < 5000 \<Longrightarrow>
   sell_loop s t out steps
   = sell_loop (js_sub s (Fin 1)) (js_sub t (Fin 1)) (js_add out (priceAtSupply s)) (steps + 1)"
  by (subst sell_loop.simps) (simp add: Let_def)

lemma js_sub_1_whole:
  assumes "k \<le> 2 ^ 53"
  shows "js_sub (Fin (of_nat (Suc k))) (Fin 1) = Fin (of_nat k)"
proof -
  have "rnd (of_nat k) = Fin (of_nat k)" using assms by (rule rnd_nat)
  then show ?thesis by (simp add: js_sub_def)
qed

lemma js_sub_1_zero: "js_sub (Fin 0) (Fin 1) = Fin (- 1)"
  using rnd_int [of "- 1"] by (simp add: js_sub_def)

text \<open>
  The selling loop on whole numbers, with both of its early stops: it adds one price for
  each token, from left to right, but never walks below level \<open>0\<close> and never runs more than
  5000 steps.
\<close>

lemma sell_loop_levels:
  "k \<le> 2 ^ 53 \<Longrightarrow> n \<le> 2 ^ 53 \<Longrightarrow>
   sell_loop (Fin (of_nat k)) (Fin (of_nat n)) out steps
   = foldl js_add out
       (map (\<lambda>i. priceAtSupply (Fin (of_nat (k - i)))) [0 ..< min n (min (Suc k) (5000 - steps))])"
proof (induction n arbitrary: k out steps)
  case 0
  then show ?case by (subst sell_loop_stop) simp_all
next
  case (Suc n)
  show ?case
  proof (cases "steps < 5000")
    case False
    then show ?thesis by (subst sell_loop_stop) simp_all
  next
    case True
    have n: "n \<le> 2 ^ 53" using Suc.prems(2) by simp
    have t1: "js_sub (Fin (of_nat (Suc n))) (Fin 1) = Fin (of_nat n)"
      using n by (rule js_sub_1_whole)
    have unfold: "sell_loop (Fin (of_nat k)) (Fin (of_nat (Suc n))) out steps
          = sell_loop (js_sub (Fin (of_nat k)) (Fin 1)) (Fin (of_nat n))
              (js_add out (priceAtSupply (Fin (of_nat k)))) (steps + 1)"
      using True by (subst sell_loop_step) (simp_all add: t1 del: of_nat_Suc)
    show ?thesis
    proof (cases k)
      case 0
      have m: "min (Suc n) (min (Suc k) (5000 - steps)) = 1" using 0 True by simp
      have "sell_loop (Fin (of_nat k)) (Fin (of_nat (Suc n))) out steps
            = js_add out (priceAtSupply (Fin (of_nat k)))"
        unfolding unfold using 0 by (simp add: js_sub_1_zero sell_loop_stop)
      then show ?thesis unfolding m using 0 by simp
    next
      case (Suc k')
      have k': "k' \<le> 2 ^ 53" using Suc.prems(1) Suc by simp
      have s1: "js_sub (Fin (of_nat k)) (Fin 1) = Fin (of_nat k')"
        unfolding Suc using k' by (rule js_sub_1_whole)
      define m where "m = min n (min (Suc k') (5000 - (steps + 1)))"
      have m: "min (Suc n) (min (Suc k) (5000 - steps)) = Suc m"
        using Suc True by (simp add: m_def)
      have "sell_loop (Fin (of_nat k)) (Fin (of_nat (Suc n))) out steps
            = sell_loop (Fin (of_nat k')) (Fin (of_nat n))
                (js_add out (priceAtSupply (Fin (of_nat k)))) (steps + 1)"
        unfolding unfold s1 ..
      also have "\<dots> = foldl js_add (js_add out (priceAtSupply (Fin (of_nat k))))
            (map (\<lambda>i. priceAtSupply (Fin (of_nat (k' - i)))) [0 ..< m])"
        unfolding m_def using k' n by (rule Suc.IH)
      also have "map (\<lambda>i. priceAtSupply (Fin (of_nat (k' - i)))) [0 ..< m]
            = map (\<lambda>i. priceAtSupply (Fin (of_nat (k - i)))) (map Suc [0 ..< m])"
        by (simp add: Suc)
      also have "map Suc [0 ..< m] = [Suc 0 ..< Suc m]" by (rule map_Suc_upt)
      also have "foldl js_add (js_add out (priceAtSupply (Fin (of_nat k))))
            (map (\<lambda>i. priceAtSupply (Fin (of_nat (k - i)))) [Suc 0 ..< Suc m])
          = foldl js_add out
              (map (\<lambda>i. priceAtSupply (Fin (of_nat (k - i)))) (0 # [Suc 0 ..< Suc m]))"
        by simp
      also have "0 # [Suc 0 ..< Suc m] = [0 ..< Suc m]" by (simp add: upt_rec)
      finally show ?thesis by (simp only: m)
    qed
  qed
qed

text \<open>
  Claim C6, as the code has it. For whole numbers up to \<open>2^53\<close>, \<^verbatim>\<open>sellTokensQuote\<close>
  starts at level \<open>max 0 (currentSupply - 1)\<close> and adds up, in binary64 and in this order,
  the prices of descending levels, one for each token, but never below level \<open>0\<close> and never
  more than 5000 of them. At supply \<open>0\<close> the walk starts at level \<open>0\<close> as it does at supply
  \<open>1\<close>, so a sale of one token or more is quoted \<open>price(0)\<close>, not \<open>0\<close>.
\<close>

theorem sellTokensQuote_levels:
  assumes "c \<le> 2 ^ 53" and "n \<le> 2 ^ 53"
  shows "sellTokensQuote (Fin (of_nat c)) (Fin (of_nat n))
   = js_sum (map (\<lambda>i. priceAtSupply (Fin (of_nat (c - 1 - i))))
               [0 ..< min n (min (Suc (c - 1)) 5000)])"
proof -
  have "js_max (Fin 0) (js_sub (Fin (of_nat c)) (Fin 1)) = Fin (of_nat (c - 1))"
  proof (cases c)
    case 0
    then show ?thesis by (simp add: js_sub_1_zero js_max_def)
  next
    case (Suc c')
    then have "c' \<le> 2 ^ 53" using assms(1) by simp
    then have "js_sub (Fin (of_nat c)) (Fin 1) = Fin (of_nat c')"
      unfolding Suc by (rule js_sub_1_whole)
    then show ?thesis using Suc by (simp add: js_max_def)
  qed
  moreover have "c - 1 \<le> 2 ^ 53" using assms(1) by simp
  ultimately show ?thesis
    using sell_loop_levels [of "c - 1" n "Fin 0" 0] assms(2)
    by (simp add: sellTokensQuote_def js_sum_def)
qed

theorem sellTokensQuote_levels_witness:
  "(103::nat) \<le> 2 ^ 53 \<and> (3::nat) \<le> 2 ^ 53 \<and>
   sellTokensQuote (Fin 103) (Fin 3)
     = js_sum [priceAtSupply (Fin 102), priceAtSupply (Fin 101), priceAtSupply (Fin 100)] \<and>
   sellTokensQuote (Fin 103) (Fin 3) = Fin (4345072920487055 / 72057594037927936)"
proof -
  have "[0 ..< 3] = [0, 1, 2]" by (simp add: upt_rec)
  with sellTokensQuote_levels [of 103 3] show ?thesis
    by (simp add: js_sum_def price_100 price_101 price_102 float_eval)
qed

text \<open>
  Claim C6 as stated fails: it says that at supply \<open>0\<close> the quote is \<open>0\<close> for every number
  of tokens. The walk starts at \<^verbatim>\<open>Math.max(0, currentSupply - 1)\<close>, which is level \<open>0\<close>, and
  one sold token is quoted \<open>price(0)\<close>, the number \<^verbatim>\<open>0.01\<close>.
\<close>

theorem sellTokensQuote_zero_supply:
  "sellTokensQuote (Fin 0) (Fin 1) = Fin (5764607523034235 / 576460752303423488) \<and>
   sellTokensQuote (Fin 0) (Fin 1) \<noteq> Fin 0 \<and>
   sellTokensQuote (Fin 1) (Fin 1) = Fin (5764607523034235 / 576460752303423488)"
  by (simp add: sellTokensQuote_def sell_loop.simps price_0 js_sub_def js_max_def float_eval)

subsection \<open>Buying and selling back\<close>

lemma buy_loop_stop:
  "\<not> (js_lt (Fin 0) budget \<and> steps < 5000 \<and> js_le (priceAtSupply s) budget) \<Longrightarrow>
   buy_loop tokens budget s steps = tokens"
  by (subst buy_loop.simps) (auto simp: Let_def)

text \<open>
  The exact total of the prices that the buying loop walks is at most the budget plus one
  rounding error of the budget for each token.
\<close>

lemma buy_loop_cost:
  "0 \<le> b \<Longrightarrow> b \<le> 2 powi j \<Longrightarrow> - 1022 \<le> j \<Longrightarrow> j \<le> 1023 \<Longrightarrow>
   k + (5000 - steps) \<le> 2 ^ 53 \<Longrightarrow> d = 2 powi j / 2 ^ 53 \<Longrightarrow>
   tokens \<le> buy_loop tokens (Fin b) (Fin (of_nat k)) steps \<and>
   buy_loop tokens (Fin b) (Fin (of_nat k)) steps - tokens \<le> 5000 - steps \<and>
   (\<forall>i < buy_loop tokens (Fin b) (Fin (of_nat k)) steps - tokens.
      \<exists>pv. priceAtSupply (Fin (of_nat (k + i))) = Fin pv \<and> 0 \<le> pv) \<and>
   (\<Sum>i < buy_loop tokens (Fin b) (Fin (of_nat k)) steps - tokens.
      val (priceAtSupply (Fin (of_nat (k + i)))))
     \<le> b + real (buy_loop tokens (Fin b) (Fin (of_nat k)) steps - tokens) * d"
proof (induction "5000 - steps" arbitrary: tokens b k steps)
  case 0
  then have "buy_loop tokens (Fin b) (Fin (of_nat k)) steps = tokens"
    by (intro buy_loop_stop) simp
  then show ?case using "0.prems"(1) by simp
next
  case (Suc m)
  let ?s = "Fin (real k)"
  let ?p = "priceAtSupply ?s"
  have st: "steps < 5000" "5000 - (steps + 1) = m" using Suc.hyps(2) by simp_all
  show ?case
  proof (cases "js_lt (Fin 0) (Fin b) \<and> js_le ?p (Fin b)")
    case False
    then have "buy_loop tokens (Fin b) ?s steps = tokens"
      by (intro buy_loop_stop) auto
    then show ?thesis using Suc.prems(1) by simp
  next
    case True
    have plow: "?p = PosInf \<or> (\<exists>pv. ?p = Fin pv \<and> 2 powi (- 7) \<le> pv)"
      by (rule priceAtSupply_lower) simp
    then obtain pv where pv: "?p = Fin pv" "2 powi (- 7) \<le> pv" "pv \<le> b"
      using True by auto
    have pv0: "0 \<le> pv" using pv(2) by (rule order_trans [rotated]) simp
    have rng: "0 \<le> b - pv" "b - pv \<le> 2 powi j" using pv(3) pv0 Suc.prems(2) by simp_all
    have "\<exists>y. rnd (b - pv) = Fin y \<and> 0 \<le> y \<and> y \<le> 2 powi j"
      using rng Suc.prems(3,4) by (intro rnd_le_pow2) simp_all
    then obtain b1 where b1: "rnd (b - pv) = Fin b1" "0 \<le> b1" "b1 \<le> 2 powi j" by blast
    have "\<exists>y. rnd (b - pv) = Fin y \<and> \<bar>y - (b - pv)\<bar> \<le> 2 powi j / 2 ^ 53 \<and>
            (0 \<le> b - pv \<longrightarrow> 0 \<le> y) \<and> (b - pv \<le> 0 \<longrightarrow> y \<le> 0)"
      using rng pow2_range [OF Suc.prems(3,4)] by (intro rnd_bound) simp_all
    then have err: "\<bar>b1 - (b - pv)\<bar> \<le> d" using b1(1) Suc.prems(6) by auto
    have sub: "js_sub (Fin b) ?p = Fin b1" by (simp add: js_sub_def pv(1) b1(1))
    have k: "k < 2 ^ 53" using Suc.prems(5) Suc.hyps(2) by simp
    have s1: "js_add ?s (Fin 1) = Fin (real (Suc k))" using k by (rule js_add_1_whole)
    have k1: "Suc k + (5000 - (steps + 1)) \<le> 2 ^ 53" using Suc.prems(5) Suc.hyps(2) by simp
    let ?r = "buy_loop (tokens + 1) (Fin b1) (Fin (real (Suc k))) (steps + 1)"
    have "buy_loop tokens (Fin b) ?s steps
          = buy_loop (tokens + 1) (js_sub (Fin b) ?p) (js_add ?s (Fin 1)) (steps + 1)"
      using st(1) True by (intro buy_loop_step) simp_all
    then have r: "buy_loop tokens (Fin b) ?s steps = ?r" by (simp only: sub s1)
    have ih: "tokens + 1 \<le> ?r \<and> ?r - (tokens + 1) \<le> 5000 - (steps + 1) \<and>
        (\<forall>i < ?r - (tokens + 1). \<exists>pv. priceAtSupply (Fin (real (Suc k + i))) = Fin pv \<and> 0 \<le> pv) \<and>
        (\<Sum>i < ?r - (tokens + 1). val (priceAtSupply (Fin (real (Suc k + i)))))
          \<le> b1 + real (?r - (tokens + 1)) * d"
      using Suc.hyps(1) [of "steps + 1" b1 "Suc k" "tokens + 1",
          OF st(2) [symmetric] b1(2,3) Suc.prems(3,4) k1 Suc.prems(6)] .
    define n' where "n' = ?r - (tokens + 1)"
    have n: "?r - tokens = Suc n'" using ih unfolding n'_def by linarith
    have ih': "n' \<le> 5000 - (steps + 1)"
      "\<forall>i < n'. \<exists>pv. priceAtSupply (Fin (real (Suc k + i))) = Fin pv \<and> 0 \<le> pv"
      "(\<Sum>i < n'. val (priceAtSupply (Fin (real (Suc k + i))))) \<le> b1 + real n' * d"
      using ih unfolding n'_def by blast+
    have c1: "tokens \<le> ?r" using ih by simp
    have c2: "Suc n' \<le> 5000 - steps" using ih'(1) st by linarith
    have c3: "\<forall>i < Suc n'. \<exists>pv. priceAtSupply (Fin (real (k + i))) = Fin pv \<and> 0 \<le> pv"
    proof (intro allI impI)
      fix i assume i: "i < Suc n'"
      show "\<exists>pv. priceAtSupply (Fin (real (k + i))) = Fin pv \<and> 0 \<le> pv"
      proof (cases i)
        case 0
        then show ?thesis using pv(1) pv0 by simp
      next
        case (Suc i')
        then have "i' < n'" using i by simp
        with ih'(2) show ?thesis by (simp add: Suc)
      qed
    qed
    have "(\<Sum>i < Suc n'. val (priceAtSupply (Fin (real (k + i)))))
          = val (priceAtSupply (Fin (real (k + 0))))
            + (\<Sum>i < n'. val (priceAtSupply (Fin (real (k + Suc i)))))"
      by (rule sum.lessThan_Suc_shift)
    also have "\<dots> = pv + (\<Sum>i < n'. val (priceAtSupply (Fin (real (Suc k + i)))))"
      by (simp add: pv(1))
    also have "\<dots> \<le> pv + (b1 + real n' * d)" using ih'(3) by simp
    also have "\<dots> \<le> b + real (Suc n') * d"
    proof -
      have "b1 \<le> b - pv + d" using err by linarith
      then show ?thesis by (simp add: algebra_simps)
    qed
    finally have c4: "(\<Sum>i < Suc n'. val (priceAtSupply (Fin (real (k + i)))))
          \<le> b + real (Suc n') * d" .
    show ?thesis unfolding r n using c1 c2 c3 c4 by blast
  qed
qed

text \<open>
  Adding finite numbers that are not negative from left to right: each addition is off by
  at most one rounding error of the bound \<open>2^j\<close>.
\<close>

lemma js_fold_bound:
  assumes "- 1022 \<le> j" and "j \<le> 1023"
    and "d = 2 powi j / 2 ^ 53"
  shows "0 \<le> a0 \<Longrightarrow> \<forall>p \<in> set ps. 0 \<le> p \<Longrightarrow>
         a0 + sum_list ps + real (length ps) * d \<le> 2 powi j \<Longrightarrow>
         \<exists>a. foldl js_add (Fin a0) (map Fin ps) = Fin a \<and> 0 \<le> a \<and>
             a \<le> a0 + sum_list ps + real (length ps) * d"
proof (induction ps arbitrary: a0)
  case Nil
  then show ?case by simp
next
  case (Cons p ps)
  have d: "0 \<le> d" by (simp add: assms(3))
  have p: "0 \<le> p" and ps: "\<forall>q \<in> set ps. 0 \<le> q" using Cons.prems(2) by simp_all
  have sp: "0 \<le> sum_list ps" using ps by (intro sum_list_nonneg) simp
  have lp: "0 \<le> real (length ps) * d" using d by simp
  have tot: "a0 + p + sum_list ps + (real (length ps) * d + d) \<le> 2 powi j"
    using Cons.prems(3) by (simp add: algebra_simps)
  then have "a0 + p \<le> 2 powi j" using sp lp d by linarith
  then have "\<exists>y. rnd (a0 + p) = Fin y \<and> \<bar>y - (a0 + p)\<bar> \<le> 2 powi j / 2 ^ 53 \<and>
          (0 \<le> a0 + p \<longrightarrow> 0 \<le> y) \<and> (a0 + p \<le> 0 \<longrightarrow> y \<le> 0)"
    using Cons.prems(1) p pow2_range [OF assms(1,2)] by (intro rnd_bound) simp_all
  then obtain a1 where a1: "rnd (a0 + p) = Fin a1" "\<bar>a1 - (a0 + p)\<bar> \<le> d" "0 \<le> a1"
    using Cons.prems(1) p assms(3) by auto
  have a1le: "a1 \<le> a0 + p + d" using a1(2) by linarith
  then have "a1 + sum_list ps + real (length ps) * d \<le> 2 powi j" using tot by linarith
  from Cons.IH [OF a1(3) ps this]
  obtain a where a: "foldl js_add (Fin a1) (map Fin ps) = Fin a" "0 \<le> a"
    "a \<le> a1 + sum_list ps + real (length ps) * d"
    by blast
  have "foldl js_add (Fin a0) (map Fin (p # ps)) = Fin a" using a(1) a1(1) by simp
  moreover have "a \<le> a0 + sum_list (p # ps) + real (length (p # ps)) * d"
    using a(3) a1le by (simp add: algebra_simps)
  ultimately show ?case using a(2) by blast
qed

lemma sum_list_upt: "sum_list (map g [0 ..< n]) = (\<Sum>i < n. g i)"
  by (simp add: interv_sum_list_conv_sum_set_nat atLeast0LessThan)

text \<open>
  Buying with funds \<open>f\<close> at a whole supply and selling the tokens back at once returns at
  most \<open>f\<close> and the rounding errors of the two loops.
\<close>

lemma roundtrip_bound:
  assumes k: "k + 5000 \<le> 2 ^ 53" and f0: "0 < f" and fmax: "f \<le> 2 ^ 1021"
    and t: "t = buyTokensQuote (Fin (of_nat k)) (Fin f)"
  shows "\<exists>a. sellTokensQuote (js_add (Fin (of_nat k)) (Fin (of_nat t))) (Fin (of_nat t)) = Fin a \<and>
             0 \<le> a \<and> a \<le> f * (1 + 1 / 2 ^ 38)"
proof (cases "t = 0")
  case True
  have "sellTokensQuote (js_add (Fin (of_nat k)) (Fin (of_nat t))) (Fin (of_nat t)) = Fin 0"
    unfolding sellTokensQuote_def using True by (intro sell_loop_stop) simp
  moreover have "0 \<le> f * (1 + 1 / 2 ^ 38)" using f0 by simp
  ultimately show ?thesis by blast
next
  case False
  let ?s = "Fin (real k)"
  have first: "js_lt (Fin 0) (Fin f) \<and> (0::nat) < 5000 \<and> js_le (priceAtSupply ?s) (Fin f)"
  proof (rule ccontr)
    assume "\<not> ?thesis"
    then have "buy_loop 0 (Fin f) ?s 0 = 0" by (rule buy_loop_stop)
    then show False using False by (simp add: t buyTokensQuote_def)
  qed
  have "priceAtSupply ?s = PosInf \<or> (\<exists>pv. priceAtSupply ?s = Fin pv \<and> 2 powi (- 7) \<le> pv)"
    by (rule priceAtSupply_lower) simp
  then have f7: "2 powi (- 7) \<le> f" using first by auto
  define j where "j = lg2 f + 1"
  define P where "P = (2::real) powi j"
  define d where "d = P / 2 ^ 53"
  have "- 7 \<le> lg2 f" using f7 by (rule lg2_ge)
  then have j1: "- 1022 \<le> j" by (simp add: j_def)
  have "f < 2 powi 1022" using fmax by simp
  then have "lg2 f < 1022" using f0 by (intro lg2_le)
  then have j2: "j \<le> 1022" by (simp add: j_def)
  have fP: "f < P" unfolding P_def j_def using f0 by (rule lg2_bounds)
  have "2 powi lg2 f \<le> f" using f0 by (rule lg2_bounds)
  moreover have "(2::real) powi (lg2 f + 1) = 2 powi lg2 f * 2" by (subst power_int_add_1) simp_all
  ultimately have P2: "P \<le> 2 * f" by (simp add: P_def j_def)
  have d0: "0 \<le> d" by (simp add: d_def P_def)
  have dP: "d * 2 ^ 53 = P" by (simp add: d_def)
  have cost: "tokens \<le> buy_loop tokens (Fin f) ?s 0 \<and>
     buy_loop tokens (Fin f) ?s 0 - tokens \<le> 5000 - 0 \<and>
     (\<forall>i < buy_loop tokens (Fin f) ?s 0 - tokens.
        \<exists>pv. priceAtSupply (Fin (real (k + i))) = Fin pv \<and> 0 \<le> pv) \<and>
     (\<Sum>i < buy_loop tokens (Fin f) ?s 0 - tokens. val (priceAtSupply (Fin (real (k + i)))))
       \<le> f + real (buy_loop tokens (Fin f) ?s 0 - tokens) * d" for tokens
    using f0 fP j1 j2 k unfolding P_def
    by (intro buy_loop_cost) (simp_all add: d_def P_def)
  define S where "S = (\<Sum>i < t. val (priceAtSupply (Fin (real (k + i)))))"
  have t5: "t \<le> 5000"
    and fin: "\<forall>i < t. \<exists>pv. priceAtSupply (Fin (real (k + i))) = Fin pv \<and> 0 \<le> pv"
    and S: "S \<le> f + real t * d"
    using cost [of 0] by (simp_all add: t buyTokensQuote_def S_def)
  have rt: "real t \<le> 5000" using t5 by simp
  have td: "real t * d \<le> 5000 * d" using rt d0 by (rule mult_right_mono)
  obtain t' where t': "t = Suc t'" using False by (cases t) simp_all
  have kt: "k + t \<le> 2 ^ 53" using k t5 by simp
  have "rnd (real (k + t)) = Fin (real (k + t))" using kt by (rule rnd_nat)
  moreover have "js_add ?s (Fin (real t)) = rnd (real (k + t))" by simp
  moreover have "k + t = Suc (k + t')" by (simp add: t')
  ultimately have sup: "js_add ?s (Fin (real t)) = Fin (real (Suc (k + t')))" by (simp only:)
  have kt': "k + t' \<le> 2 ^ 53" using kt t' by simp
  have top: "js_sub (Fin (real (Suc (k + t')))) (Fin 1) = Fin (real (k + t'))"
    using kt' by (rule js_sub_1_whole)
  have mx: "js_max (Fin 0) (Fin (real (k + t'))) = Fin (real (k + t'))"
    by (simp add: js_max_def)
  have tn: "t \<le> 2 ^ 53" using kt by simp
  have mn: "min t (min (Suc (k + t')) (5000 - 0)) = t" using t5 t' by simp
  define vs where "vs = map (\<lambda>i. val (priceAtSupply (Fin (real (k + t' - i))))) [0 ..< t]"
  have "sellTokensQuote (js_add ?s (Fin (real t))) (Fin (real t))
        = sell_loop (Fin (real (k + t'))) (Fin (real t)) (Fin 0) 0"
    unfolding sellTokensQuote_def sup top mx ..
  also have "\<dots> = foldl js_add (Fin 0)
        (map (\<lambda>i. priceAtSupply (Fin (real (k + t' - i)))) [0 ..< t])"
    using sell_loop_levels [OF kt' tn, of "Fin 0" 0] unfolding mn .
  also have "map (\<lambda>i. priceAtSupply (Fin (real (k + t' - i)))) [0 ..< t] = map Fin vs"
    unfolding vs_def map_map
  proof (rule map_cong [OF refl])
    fix i assume "i \<in> set [0 ..< t]"
    then have i: "i < t" by simp
    then have "t' - i < t" using t' by simp
    with fin obtain pv where "priceAtSupply (Fin (real (k + (t' - i)))) = Fin pv" by blast
    moreover have "k + (t' - i) = k + t' - i" using i t' by simp
    ultimately show "priceAtSupply (Fin (real (k + t' - i)))
        = (Fin \<circ> (\<lambda>i. val (priceAtSupply (Fin (real (k + t' - i)))))) i"
      by simp
  qed
  finally have sell: "sellTokensQuote (js_add ?s (Fin (real t))) (Fin (real t))
        = foldl js_add (Fin 0) (map Fin vs)" .
  have vs0: "\<forall>p \<in> set vs. 0 \<le> p"
  proof
    fix p assume "p \<in> set vs"
    then obtain i where i: "i < t" "p = val (priceAtSupply (Fin (real (k + t' - i))))"
      by (auto simp: vs_def)
    then have "t' - i < t" using t' by simp
    with fin obtain pv where "priceAtSupply (Fin (real (k + (t' - i)))) = Fin pv" "0 \<le> pv"
      by blast
    moreover have "k + (t' - i) = k + t' - i" using i t' by simp
    ultimately show "0 \<le> p" using i(2) by simp
  qed
  have "sum_list vs = (\<Sum>i < t. val (priceAtSupply (Fin (real (k + t' - i)))))"
    unfolding vs_def by (rule sum_list_upt)
  also have "\<dots> = (\<Sum>i < t. val (priceAtSupply (Fin (real (k + (t - Suc i))))))"
    by (rule sum.cong) (simp_all add: t')
  also have "\<dots> = S"
    unfolding S_def by (rule sum.nat_diff_reindex)
  finally have sv: "sum_list vs = S" .
  have lv: "length vs = t" by (simp add: vs_def)
  have d2: "2 * d = 2 powi (j + 1) / 2 ^ 53"
    by (subst power_int_add_1) (simp_all add: d_def P_def)
  have Pj: "(2::real) powi (j + 1) = 2 * P"
    by (subst power_int_add_1) (simp_all add: P_def)
  have e: "(2::real) ^ 53 = 9007199254740992" "(1::real) / 2 ^ 38 = 1 / 274877906944" by simp_all
  have room: "0 + sum_list vs + real (length vs) * (2 * d) \<le> 2 powi (j + 1)"
    unfolding sv lv Pj using S td fP dP d0 unfolding e by linarith
  have "\<exists>a. foldl js_add (Fin 0) (map Fin vs) = Fin a \<and> 0 \<le> a \<and>
          a \<le> 0 + sum_list vs + real (length vs) * (2 * d)"
    using j1 j2 d2 vs0 room by (intro js_fold_bound [where j = "j + 1"]) simp_all
  then obtain a where a: "foldl js_add (Fin 0) (map Fin vs) = Fin a" "0 \<le> a"
    "a \<le> S + real t * (2 * d)"
    unfolding sv lv by auto
  have "a \<le> f * (1 + 1 / 2 ^ 38)"
    using a(3) S td P2 dP d0 f0 unfolding e by (simp add: algebra_simps) 
  then show ?thesis using sell a(1,2) by auto
qed

text \<open>
  Claim C5, as the code has it. For a whole supply \<open>s\<close> and finite funds \<open>f > 0\<close>, let \<open>t\<close>
  be the tokens that \<^verbatim>\<open>buyTokensQuote\<close> gives for \<open>f\<close> at supply \<open>s\<close>. Selling \<open>t\<close> tokens
  back at supply \<open>s + t\<close> returns a finite amount that is at most \<open>f * (1 + 2^-38)\<close>: the
  seller receives no more than the buyer paid, up to the rounding of the additions and
  subtractions of the two loops.
\<close>

theorem buy_then_sell_roundtrip:
  assumes "k + 5000 \<le> 2 ^ 53" and "0 < f" and "f \<le> 2 ^ 1021"
  shows "\<exists>a. sellTokensQuote
               (js_add (Fin (of_nat k)) (Fin (of_nat (buyTokensQuote (Fin (of_nat k)) (Fin f)))))
               (Fin (of_nat (buyTokensQuote (Fin (of_nat k)) (Fin f)))) = Fin a \<and>
             0 \<le> a \<and> a \<le> f * (1 + 1 / 2 ^ 38)"
  using assms refl by (rule roundtrip_bound)

lemma buyTokensQuote_0603:
  "buyTokensQuote (Fin 100) (Fin (8690145840974109 / 144115188075855872)) = 3"
  by (simp add: buyTokensQuote_def buy_loop.simps price_100 price_101 price_102 price_103
      js_sub_def float_eval)

lemma sellTokensQuote_0603:
  "sellTokensQuote (Fin 103) (Fin 3) = Fin (4345072920487055 / 72057594037927936)"
  by (simp add: sellTokensQuote_def sell_loop.simps price_100 price_101 price_102
      js_sub_def js_max_def float_eval)

theorem buy_then_sell_roundtrip_witness:
  "rnd (603 / 10000) = Fin (8690145840974109 / 144115188075855872) \<and>
   (100::nat) + 5000 \<le> 2 ^ 53 \<and> (0::real) < 8690145840974109 / 144115188075855872 \<and>
   (8690145840974109 / 144115188075855872 :: real) \<le> 2 ^ 1021 \<and>
   buyTokensQuote (Fin 100) (Fin (8690145840974109 / 144115188075855872)) = 3 \<and>
   sellTokensQuote (js_add (Fin 100) (Fin 3)) (Fin 3)
     = Fin (4345072920487055 / 72057594037927936) \<and>
   (4345072920487055 / 72057594037927936 :: real)
     \<le> 8690145840974109 / 144115188075855872 * (1 + 1 / 2 ^ 38)"
  using buy_then_sell_roundtrip [of 100 "8690145840974109 / 144115188075855872"]
  by (simp add: buyTokensQuote_0603 sellTokensQuote_0603 float_eval)

text \<open>
  Claim C5 as stated fails: with funds \<^verbatim>\<open>0.0603\<close> at supply \<open>100\<close> the loop buys three
  tokens, and selling the three tokens back at supply \<open>103\<close> returns
  \<^verbatim>\<open>0.060300000000000006\<close>, which is more than the funds.
\<close>

theorem roundtrip_returns_more_counterexample:
  "rnd (603 / 10000) = Fin (8690145840974109 / 144115188075855872) \<and>
   buyTokensQuote (Fin 100) (Fin (8690145840974109 / 144115188075855872)) = 3 \<and>
   js_add (Fin 100) (Fin 3) = Fin 103 \<and>
   sellTokensQuote (Fin 103) (Fin 3) = Fin (4345072920487055 / 72057594037927936) \<and>
   js_lt (Fin (8690145840974109 / 144115188075855872))
     (sellTokensQuote (Fin 103) (Fin 3)) \<and>
   \<not> js_le (sellTokensQuote (Fin 103) (Fin 3)) (Fin (8690145840974109 / 144115188075855872))"
  by (simp add: buyTokensQuote_0603 sellTokensQuote_0603 float_eval)

section \<open>Properties of the handlers\<close>

lemma demo_state_run: "run init_state demo_ops = demo_state"
  by (simp add: demo_ops_def demo_state_def demo_project_def demo_body_def init_state_def
      createProject_def buy_def Let_def holdingKey_def FUNDING_CAP_def lit_005
      buyTokensQuote_demo float_eval)

subsection \<open>Failures write nothing\<close>

lemma createProject_failure: "createProject st u b i n = (st', Failure e) \<Longrightarrow> st' = st"
  by (auto simp: createProject_def Let_def split: if_splits)

lemma buy_failure: "buy st u pid a = (st', Failure e) \<Longrightarrow> st' = st"
  by (auto simp: buy_def Let_def split: option.splits if_splits)

lemma sell_failure: "sell st u pid a = (st', Failure e) \<Longrightarrow> st' = st"
  by (auto simp: sell_def Let_def split: option.splits if_splits)

lemma createOffer_failure: "createOffer st u pid pp a i n = (st', Failure e) \<Longrightarrow> st' = st"
  by (auto simp: createOffer_def Let_def split: option.splits if_splits)

lemma fillOffer_failure: "fillOffer st u pid oid a = (st', Failure e) \<Longrightarrow> st' = st"
  by (auto simp: fillOffer_def Let_def split: option.splits if_splits)

lemma createMilestone_failure:
  "createMilestone st u pid t d a i n = (st', Failure e) \<Longrightarrow> st' = st"
  by (auto simp: createMilestone_def Let_def split: option.splits if_splits)

lemma createProposal_failure:
  "createProposal st u pid m a i n = (st', Failure e) \<Longrightarrow> st' = st"
  by (auto simp: createProposal_def Let_def split: option.splits if_splits)

lemma vote_failure: "vote st pid prid a = (st', Failure e) \<Longrightarrow> st' = st"
  by (auto simp: vote_def Let_def split: option.splits if_splits)

lemma release_failure: "release st u pid prid = (st', Failure e) \<Longrightarrow> st' = st"
  by (auto simp: release_def Let_def split: option.splits if_splits)

text \<open>
  Claim C9. For every request (create project, buy, sell, create offer, fill offer, and the
  milestone and proposal requests as well) and every state of the stores: when the handler
  answers with a failure, the stores it leaves are the stores it found.
\<close>

theorem failure_leaves_state: "step st op = (st', Failure e) \<Longrightarrow> st' = st"
  by (cases op)
     (auto dest: createProject_failure buy_failure sell_failure createOffer_failure
        fillOffer_failure createMilestone_failure createProposal_failure vote_failure
        release_failure)

theorem failure_leaves_state_witness:
  "step demo_state (SellOp ''alice'' ''proj0001'' (Fin 3))
     = (fst (step demo_state (SellOp ''alice'' ''proj0001'' (Fin 3))),
        Failure InsufficientBalance) \<and>
   fst (step demo_state (SellOp ''alice'' ''proj0001'' (Fin 3))) = demo_state"
proof -
  have h: "step demo_state (SellOp ''alice'' ''proj0001'' (Fin 3))
           = (fst (step demo_state (SellOp ''alice'' ''proj0001'' (Fin 3))),
              Failure InsufficientBalance)"
    by (simp add: sell_def demo_state_def demo_project_def holdingKey_def Let_def)
  from failure_leaves_state [OF h] h show ?thesis by blast
qed

subsection \<open>The frame of a sale\<close>

text \<open>
  Claim C8. A successful sale of \<open>tokens\<close> by \<open>userId\<close> on project \<open>pid\<close> found the project
  \<open>p\<close> and the caller's holding \<open>h\<close>; it pays \<open>amountOut = sellTokensQuote (supply, tokens)\<close>,
  sets the supply to \<open>max 0 (supply - tokens)\<close> and the reserve to
  \<open>max 0 (reserve - amountOut)\<close>, and takes \<open>tokens\<close> from the caller's holding. Nothing else
  changes: the other fields of the project, among them \<open>capReached\<close>, are as before, the
  project map changes at \<open>pid\<close> only, the holdings map at the caller's key only, and offers,
  milestones and proposals are untouched.
\<close>

theorem sell_frame:
  assumes "sell st userId pid tokens = (st', Sold p' amountOut)"
  shows "\<exists>p h. map_of (projects st) pid = Some p \<and>
           map_of (holdings st) (holdingKey userId (p_id p)) = Some h \<and>
           amountOut = sellTokensQuote (p_supply p) tokens \<and>
           p' = p\<lparr>p_supply := js_max (Fin 0) (js_sub (p_supply p) tokens),
                  p_reserve := js_max (Fin 0) (js_sub (p_reserve p) amountOut)\<rparr> \<and>
           p_capReached p' = p_capReached p \<and>
           projects st' = AList.update pid p' (projects st) \<and>
           holdings st' = AList.update (holdingKey userId (p_id p))
                            (h\<lparr>h_balance := js_sub (h_balance h) tokens\<rparr>) (holdings st) \<and>
           offers st' = offers st \<and> milestones st' = milestones st \<and>
           proposals st' = proposals st"
  using assms
  by (auto simp: sell_def Let_def split: option.splits if_splits)

lemma resold_state_sell:
  "sell demo_state ''alice'' ''proj0001'' (Fin 1) =
     (demo_state\<lparr>projects := [(''proj0001'', resold_project)],
        holdings := [(''founder:proj0001'',
                        \<lparr>h_userId = ''founder'', h_projectId = ''proj0001'', h_balance = Fin 100\<rparr>),
                     (''alice:proj0001'',
                        \<lparr>h_userId = ''alice'', h_projectId = ''proj0001'', h_balance = Fin 1\<rparr>)]\<rparr>,
      Sold resold_project (Fin (2896715280324703 / 144115188075855872)))"
  by (simp add: sell_def demo_state_def demo_project_def resold_project_def holdingKey_def
      sellTokensQuote_demo Let_def js_sub_def js_max_def float_eval)

theorem sell_frame_witness:
  "sell demo_state ''alice'' ''proj0001'' (Fin 1) =
     (demo_state\<lparr>projects := [(''proj0001'', resold_project)],
        holdings := [(''founder:proj0001'',
                        \<lparr>h_userId = ''founder'', h_projectId = ''proj0001'', h_balance = Fin 100\<rparr>),
                     (''alice:proj0001'',
                        \<lparr>h_userId = ''alice'', h_projectId = ''proj0001'', h_balance = Fin 1\<rparr>)]\<rparr>,
      Sold resold_project (Fin (2896715280324703 / 144115188075855872))) \<and>
   p_supply resold_project = Fin 101 \<and>
   p_reserve resold_project = Fin (4309044123468091 / 144115188075855872) \<and>
   p_capReached resold_project = p_capReached demo_project"
  using sell_frame [OF resold_state_sell] resold_state_sell
  by (simp add: resold_project_def)

subsection \<open>Runs of the server\<close>

lemma run_append: "run st (xs @ ys) = run (run st xs) ys"
  by (induction xs arbitrary: st) simp_all

lemma fresh_ids_append: "fresh_ids st (xs @ ys) = (fresh_ids st xs \<and> fresh_ids (run st xs) ys)"
  by (induction xs arbitrary: st) simp_all

lemma escrow_state_run: "run init_state market_ops = escrow_state"
  by (simp add: market_ops_def run_append demo_state_run)
     (simp add: demo_state_def escrow_state_def demo_project_def createOffer_def holdingKey_def
        Let_def js_sub_def float_eval)

lemma demo_ops_fresh: "fresh_ids init_state demo_ops"
  by (simp add: demo_ops_def demo_body_def init_state_def createProject_def Let_def)

lemma market_ops_fresh: "fresh_ids init_state market_ops"
  by (simp add: market_ops_def fresh_ids_append demo_ops_fresh demo_state_run)
     (simp add: demo_state_def)

subsection \<open>Offers in escrow\<close>

lemma keyed_update:
  "\<forall>(k, v) \<in> set al. o_id v = k \<Longrightarrow> o_id v0 = k0 \<Longrightarrow>
   \<forall>(k, v) \<in> set (AList.update k0 v0 al). o_id v = k"
  by (induction al) auto

lemma offers_keyed_lookup:
  "offers_keyed st \<Longrightarrow> map_of (offers st) oid = Some offer \<Longrightarrow> o_id offer = oid"
  by (auto simp: offers_keyed_def dest!: map_of_SomeD)

lemma offers_keyed_step:
  assumes "offers_keyed st"
  shows "offers_keyed (fst (step st op))"
proof (cases op)
  case (CreateProjectOp u body newId now)
  then show ?thesis using assms by (simp add: createProject_def Let_def offers_keyed_def)
next
  case (BuyOp u pid a)
  then show ?thesis using assms
    by (simp add: buy_def Let_def offers_keyed_def split: option.splits)
next
  case (SellOp u pid a)
  then show ?thesis using assms
    by (simp add: sell_def Let_def offers_keyed_def split: option.splits)
next
  case (CreateOfferOp u pid price a newId now)
  then show ?thesis using assms unfolding offers_keyed_def
    by (simp add: createOffer_def Let_def split: option.splits)
       (intro conjI impI allI keyed_update; simp)
next
  case (FillOp u pid oid a)
  show ?thesis
  proof (cases "map_of (offers st) oid")
    case None
    then show ?thesis using FillOp assms by (simp add: fillOffer_def split: option.splits)
  next
    case (Some offer)
    from offers_keyed_lookup [OF assms Some] have oid: "o_id offer = oid" .
    then show ?thesis using FillOp assms Some unfolding offers_keyed_def
      by (simp add: fillOffer_def Let_def split: option.splits)
         (intro conjI impI allI keyed_update; simp)
  qed
next
  case (CreateMilestoneOp u pid t d a i n)
  then show ?thesis using assms
    by (simp add: createMilestone_def Let_def offers_keyed_def split: option.splits)
next
  case (CreateProposalOp u pid m a i n)
  then show ?thesis using assms
    by (simp add: createProposal_def Let_def offers_keyed_def split: option.splits)
next
  case (VoteOp pid prid a)
  then show ?thesis using assms
    by (simp add: vote_def Let_def offers_keyed_def split: option.splits)
next
  case (ReleaseOp u pid prid)
  then show ?thesis using assms
    by (simp add: release_def Let_def offers_keyed_def split: option.splits)
qed

lemma offers_keyed_run: "offers_keyed st \<Longrightarrow> offers_keyed (run st ops)"
  by (induction ops arbitrary: st) (simp_all add: offers_keyed_step)

lemma offers_keyed_init: "offers_keyed init_state"
  by (simp add: offers_keyed_def init_state_def)

lemma offer_kept_step:
  assumes keyed: "offers_keyed st" and fresh: "fresh_id st op" and nofill: "\<not> fills oid op"
    and off: "map_of (offers st) oid = Some offer"
  shows "map_of (offers (fst (step st op))) oid = Some offer"
proof (cases op)
  case (CreateProjectOp u body newId now)
  then show ?thesis using off by (simp add: createProject_def Let_def)
next
  case (BuyOp u pid a)
  then show ?thesis using off by (auto simp: buy_def Let_def split: option.splits)
next
  case (SellOp u pid a)
  then show ?thesis using off by (auto simp: sell_def Let_def split: option.splits)
next
  case (CreateOfferOp u pid price a newId now)
  have "oid \<in> fst ` set (offers st)"
    using off by (auto dest!: map_of_SomeD intro: rev_image_eqI)
  with fresh CreateOfferOp have "newId \<noteq> oid" by auto
  then show ?thesis using CreateOfferOp off
    by (auto simp: createOffer_def Let_def update_conv' split: option.splits)
next
  case (FillOp u pid oid2 a)
  with nofill have neq: "oid2 \<noteq> oid" by simp
  show ?thesis
  proof (cases "map_of (offers st) oid2")
    case None
    then show ?thesis using FillOp off by (auto simp: fillOffer_def split: option.splits)
  next
    case (Some offer2)
    from offers_keyed_lookup [OF keyed Some] have "o_id offer2 = oid2" .
    then show ?thesis using FillOp off Some neq
      by (auto simp: fillOffer_def Let_def update_conv' split: option.splits)
  qed
next
  case (CreateMilestoneOp u pid t d a i n)
  then show ?thesis using off by (auto simp: createMilestone_def Let_def split: option.splits)
next
  case (CreateProposalOp u pid m a i n)
  then show ?thesis using off by (auto simp: createProposal_def Let_def split: option.splits)
next
  case (VoteOp pid prid a)
  then show ?thesis using off by (auto simp: vote_def Let_def split: option.splits)
next
  case (ReleaseOp u pid prid)
  then show ?thesis using off by (auto simp: release_def Let_def split: option.splits)
qed

lemma offer_kept_run:
  "offers_keyed st \<Longrightarrow> fresh_ids st ops \<Longrightarrow> \<forall>op \<in> set ops. \<not> fills oid op \<Longrightarrow>
   map_of (offers st) oid = Some offer \<Longrightarrow> map_of (offers (run st ops)) oid = Some offer"
proof (induction ops arbitrary: st)
  case Nil
  then show ?case by simp
next
  case (Cons op ops)
  have "offers_keyed (fst (step st op))" using Cons.prems(1) by (rule offers_keyed_step)
  moreover have "map_of (offers (fst (step st op))) oid = Some offer"
    using Cons.prems by (intro offer_kept_step) simp_all
  ultimately show ?case using Cons.prems Cons.IH by simp
qed

text \<open>
  Claim C10, as the code has it. There is no cancel request, and an offer changes through
  a fill of that offer only: in a run of the server, no sequence of requests without a fill
  of the offer changes the offer, so its escrowed amount stays where it is and reaches no
  holding. Who makes the requests does not matter, and nothing stops a seller from filling
  her own offer.
\<close>

theorem escrow_leaves_only_by_fill:
  assumes "fresh_ids init_state (ops0 @ ops)"
    and "map_of (offers (run init_state ops0)) oid = Some offer"
    and "\<forall>op \<in> set ops. \<not> fills oid op"
  shows "map_of (offers (run init_state (ops0 @ ops))) oid = Some offer"
proof -
  from assms(1) have f: "fresh_ids init_state ops0" "fresh_ids (run init_state ops0) ops"
    by (simp_all add: fresh_ids_append)
  have "offers_keyed (run init_state ops0)" using offers_keyed_init by (rule offers_keyed_run)
  from offer_kept_run [OF this f(2) assms(3) assms(2)] show ?thesis
    by (simp add: run_append)
qed

lemma buyTokensQuote_demo2:
  "buyTokensQuote (Fin 102) (Fin (3602879701896397 / 72057594037927936)) = 2"
  by (simp add: buyTokensQuote_def buy_loop.simps price_102 price_103 price_104 js_sub_def
      float_eval)

lemma sellTokensQuote_demo2:
  "sellTokensQuote (Fin 104) (Fin 1) = Fin (1462769158969937 / 72057594037927936)"
  by (simp add: sellTokensQuote_def sell_loop.simps price_103 js_sub_def js_max_def float_eval)

lemma seller_ops_run:
  "run escrow_state seller_ops =
     escrow_state\<lparr>projects := [(''proj0001'',
         demo_project\<lparr>p_supply := Fin 103,
                      p_reserve := Fin (5742990244822857 / 72057594037927936)\<rparr>)],
       holdings := [(''founder:proj0001'',
                    \<lparr>h_userId = ''founder'', h_projectId = ''proj0001'', h_balance = Fin 100\<rparr>),
                 (''alice:proj0001'',
                    \<lparr>h_userId = ''alice'', h_projectId = ''proj0001'', h_balance = Fin 1\<rparr>)]\<rparr>"
  by (simp add: seller_ops_def escrow_state_def demo_project_def buy_def sell_def holdingKey_def
      Let_def FUNDING_CAP_def lit_005 buyTokensQuote_demo2 sellTokensQuote_demo2 js_sub_def
      js_max_def float_eval)

theorem escrow_leaves_only_by_fill_witness:
  "fresh_ids init_state (market_ops @ seller_ops) \<and>
   map_of (offers (run init_state market_ops)) ''offer001'' =
     Some \<lparr>o_id = ''offer001'', o_projectId = ''proj0001'', o_sellerId = ''alice'',
            o_pricePerToken = Fin 1, o_amount = Fin 2, o_createdAt = 1, o_status = OfferOpen\<rparr> \<and>
   map_of (offers (run init_state (market_ops @ seller_ops))) ''offer001'' =
     Some \<lparr>o_id = ''offer001'', o_projectId = ''proj0001'', o_sellerId = ''alice'',
            o_pricePerToken = Fin 1, o_amount = Fin 2, o_createdAt = 1, o_status = OfferOpen\<rparr>"
proof -
  have h1: "fresh_ids init_state (market_ops @ seller_ops)"
    by (simp add: fresh_ids_append market_ops_fresh escrow_state_run) (simp add: seller_ops_def)
  have h2: "map_of (offers (run init_state market_ops)) ''offer001'' =
     Some \<lparr>o_id = ''offer001'', o_projectId = ''proj0001'', o_sellerId = ''alice'',
            o_pricePerToken = Fin 1, o_amount = Fin 2, o_createdAt = 1, o_status = OfferOpen\<rparr>"
    by (simp add: escrow_state_run escrow_state_def)
  have h3: "\<forall>op \<in> set seller_ops. \<not> fills ''offer001'' op"
    by (simp add: seller_ops_def)
  from escrow_leaves_only_by_fill [OF h1 h2 h3] h1 h2 show ?thesis by simp
qed

text \<open>
  Claim C10 as stated fails: the handler does not compare the buyer with the seller. The
  seller of \<^verbatim>\<open>offer001\<close>, whose balance is \<open>0\<close> while \<open>2\<close> tokens are in escrow, fills her
  own offer and has her \<open>2\<close> tokens back.
\<close>

theorem seller_fills_own_offer_counterexample:
  "run init_state market_ops = escrow_state \<and>
   map_of (offers escrow_state) ''offer001'' =
     Some \<lparr>o_id = ''offer001'', o_projectId = ''proj0001'', o_sellerId = ''alice'',
            o_pricePerToken = Fin 1, o_amount = Fin 2, o_createdAt = 1, o_status = OfferOpen\<rparr> \<and>
   balanceOf (holdings escrow_state) (holdingKey ''alice'' ''proj0001'') = Fin 0 \<and>
   balanceOf (holdings (run escrow_state [FillOp ''alice'' ''proj0001'' ''offer001'' (Fin 2)]))
     (holdingKey ''alice'' ''proj0001'') = Fin 2 \<and>
   map_of (offers (run escrow_state [FillOp ''alice'' ''proj0001'' ''offer001'' (Fin 2)]))
       ''offer001'' =
     Some \<lparr>o_id = ''offer001'', o_projectId = ''proj0001'', o_sellerId = ''alice'',
            o_pricePerToken = Fin 1, o_amount = Fin 0, o_createdAt = 1, o_status = OfferFilled\<rparr>"
  by (simp add: escrow_state_run)
     (simp add: escrow_state_def demo_project_def fillOffer_def holdingKey_def balanceOf_def
        Let_def js_sub_def js_max_def js_min_def float_eval)

subsection \<open>The funding cap\<close>

lemma goal_state_run: "run init_state goal_ops = goal_state"
  by (simp add: goal_ops_def goal_state_def goal_project_def goal_body_def init_state_def
      createProject_def Let_def holdingKey_def FUNDING_CAP_def lit_004 float_eval)

lemma funded_state_buy:
  "buy goal_state ''alice'' ''proj0002'' (rnd (1 / 20)) = (funded_state, Bought funded_project 2)"
  by (simp add: goal_state_def funded_state_def funded_project_def goal_project_def buy_def
      Let_def holdingKey_def FUNDING_CAP_def lit_005 buyTokensQuote_demo float_eval)

text \<open>
  Claim C2 as stated fails: it says that a purchase sets \<open>capReached\<close> exactly when the new
  reserve has reached the project's \<open>fundingGoal\<close>. The handler compares the reserve with
  the constant \<^verbatim>\<open>FUNDING_CAP\<close> and never reads the goal that \<^verbatim>\<open>POST /projects\<close> stored:
  on a project with goal \<^verbatim>\<open>0.04\<close>, a purchase for \<^verbatim>\<open>0.05\<close> leaves \<open>capReached\<close> false.
\<close>

theorem buy_ignores_fundingGoal:
  "run init_state goal_ops = goal_state \<and>
   buy goal_state ''alice'' ''proj0002'' (rnd (1 / 20))
     = (funded_state, Bought funded_project 2) \<and>
   p_reserve funded_project = Fin (3602879701896397 / 72057594037927936) \<and>
   p_fundingGoal funded_project = Fin (5764607523034235 / 144115188075855872) \<and>
   js_le (p_fundingGoal funded_project) (p_reserve funded_project) \<and>
   p_capReached funded_project = False"
  by (simp add: goal_state_run funded_state_buy)
     (simp add: funded_project_def goal_project_def)

text \<open>
  Claim C7 as stated fails: it says that the purchase that takes the reserve to the
  project's \<open>fundingGoal\<close> sets \<open>capReached\<close> and that later purchases are refused. On the
  project with goal \<^verbatim>\<open>0.04\<close> the purchase for \<^verbatim>\<open>0.05\<close> leaves the flag false, and the
  next purchase is served.
\<close>

theorem buy_after_goal_not_rejected:
  "run goal_state [BuyOp ''alice'' ''proj0002'' (rnd (1 / 20))] = funded_state \<and>
   map_of (projects funded_state) ''proj0002'' = Some funded_project \<and>
   js_le (p_fundingGoal funded_project) (p_reserve funded_project) \<and>
   snd (step funded_state (BuyOp ''bob'' ''proj0002'' (rnd (1 / 20))))
     = Bought (funded_project\<lparr>p_supply := Fin 104,
                 p_reserve := Fin (3602879701896397 / 36028797018963968)\<rparr>) 2"
  by (simp add: funded_state_buy)
     (simp add: funded_state_def funded_project_def goal_project_def buy_def Let_def
        holdingKey_def FUNDING_CAP_def lit_005 buyTokensQuote_demo2 float_eval)

lemma voted_state_run: "run funded_state governance_ops = voted_state"
  by (simp add: governance_ops_def voted_state_def voted_proposal_def beta_milestone_def
      funded_state_def funded_project_def goal_project_def createMilestone_def
      createProposal_def vote_def Let_def lit_001 float_eval)

lemma released_project_release:
  "snd (release voted_state ''founder'' ''proj0002'' ''prop0001'')
     = FundsReleased released_project (voted_proposal\<lparr>pr_released := True\<rparr>)
         (beta_milestone\<lparr>m_status := Released\<rparr>)
         (Fin (5764607523034235 / 576460752303423488))"
  by (simp add: voted_state_def voted_proposal_def beta_milestone_def funded_state_def
      funded_project_def released_project_def goal_project_def release_def Let_def
      FUNDING_CAP_def js_sub_def js_max_def js_min_def float_eval)

text \<open>
  Claim C4 as stated fails: it says that a release derives \<open>capReached\<close> anew as
  \<open>reserve \<ge> fundingGoal\<close>. The handler only clears the flag, when the reserve is below the
  constant \<^verbatim>\<open>FUNDING_CAP\<close>: after the release of \<^verbatim>\<open>0.01\<close> the reserve \<^verbatim>\<open>0.04\<close> equals
  the project's goal and the flag is false.
\<close>

theorem release_ignores_fundingGoal:
  "run funded_state governance_ops = voted_state \<and>
   snd (step voted_state (ReleaseOp ''founder'' ''proj0002'' ''prop0001''))
     = FundsReleased released_project (voted_proposal\<lparr>pr_released := True\<rparr>)
         (beta_milestone\<lparr>m_status := Released\<rparr>)
         (Fin (5764607523034235 / 576460752303423488)) \<and>
   p_reserve released_project = Fin (5764607523034235 / 144115188075855872) \<and>
   p_fundingGoal released_project = Fin (5764607523034235 / 144115188075855872) \<and>
   js_le (p_fundingGoal released_project) (p_reserve released_project) \<and>
   p_capReached released_project = False"
  by (simp add: voted_state_run released_project_release)
     (simp add: released_project_def funded_project_def goal_project_def)

lemma buyTokensQuote_launch: "buyTokensQuote (Fin 102) (Fin 100000) = 5000"
  using buyTokensQuote_ceiling(1) [of 100000 102] by simp

lemma launched_state_buy:
  "buy demo_state ''bob'' ''proj0001'' (Fin 100000) = (launched_state, Bought launched_project 5000)"
  by (simp add: demo_state_def launched_state_def launched_project_def demo_project_def buy_def
      Let_def holdingKey_def FUNDING_CAP_def buyTokensQuote_launch float_eval)

text \<open>
  Claim C2, as the code has it. On an existing project a purchase is refused with
  \<open>CapReached\<close> when the flag is set, else with \<open>InvalidAmount\<close> when the funds are not
  positive, else with \<open>QuoteTooSmall\<close> when the quote is \<open>0\<close> tokens. Otherwise it adds the
  tokens to the supply and the whole of the funds to the reserve, sets \<open>capReached\<close> exactly
  when the new reserve has reached the constant \<^verbatim>\<open>FUNDING_CAP\<close>, credits the caller's holding
  with the tokens, and answers with the project and the tokens.
\<close>

theorem buy_result:
  assumes "map_of (projects st) pid = Some p"
  shows "buy st userId pid amount =
     (if p_capReached p then (st, Failure CapReached)
      else if js_le amount (Fin 0) then (st, Failure InvalidAmount)
      else if buyTokensQuote (p_supply p) amount = 0 then (st, Failure QuoteTooSmall)
      else
        let tokensOut = buyTokensQuote (p_supply p) amount;
            p' = p\<lparr>p_supply := js_add (p_supply p) (Fin (of_nat tokensOut)),
                   p_reserve := js_add (p_reserve p) amount,
                   p_capReached := js_le FUNDING_CAP (js_add (p_reserve p) amount)\<rparr>;
            key = holdingKey userId (p_id p);
            h = (case map_of (holdings st) key of
                   Some h \<Rightarrow> h
                 | None \<Rightarrow> \<lparr>h_userId = userId, h_projectId = p_id p, h_balance = Fin 0\<rparr>)
        in (st\<lparr>projects := AList.update pid p' (projects st),
                holdings := AList.update key
                              (h\<lparr>h_balance := js_add (h_balance h) (Fin (of_nat tokensOut))\<rparr>)
                              (holdings st)\<rparr>,
            Bought p' tokensOut))"
  using assms by (cases p) (simp add: buy_def Let_def cong: option.case_cong)

theorem buy_result_witness:
  "map_of (projects demo_state) ''proj0001'' = Some demo_project \<and>
   buy demo_state ''bob'' ''proj0001'' (Fin 100000) = (launched_state, Bought launched_project 5000) \<and>
   p_supply launched_project = Fin 5102 \<and>
   p_reserve launched_project = Fin (6871951109573837 / 68719476736) \<and>
   p_capReached launched_project"
proof -
  have h: "map_of (projects demo_state) ''proj0001'' = Some demo_project"
    by (simp add: demo_state_def)
  from buy_result [OF h, of "''bob''" "Fin 100000"] h show ?thesis
    by (simp add: launched_state_buy) (simp add: launched_project_def)
qed

text \<open>
  Claim C4, as the code has it. On an existing project whose proposal and milestone are found,
  a release is refused with \<open>Forbidden\<close> for every caller but the founder, with
  \<open>AlreadyReleased\<close> when the proposal is released, and with \<open>NotApproved\<close> when
  \<open>approvals < 1\<close> or \<open>approvals \<le> rejections\<close>. Otherwise it moves
  \<open>amount = min (proposal.amount, reserve)\<close>, sets the reserve to \<open>max 0 (reserve - amount)\<close>,
  clears \<open>capReached\<close> when the new reserve is below the constant \<^verbatim>\<open>FUNDING_CAP\<close> and leaves
  it as it was otherwise, marks the proposal and the milestone released, and answers with
  the project, the proposal, the milestone and the amount.
\<close>

theorem release_effect:
  assumes "map_of (projects st) pid = Some p"
    and "map_of (proposals st) proposalId = Some pr" and "pr_projectId pr = p_id p"
    and "map_of (milestones st) (pr_milestoneId pr) = Some m"
  shows "release st userId pid proposalId =
     (if p_founderId p \<noteq> userId then (st, Failure Forbidden)
      else if pr_released pr then (st, Failure AlreadyReleased)
      else if js_lt (pr_approvals pr) (Fin 1) \<or> js_le (pr_approvals pr) (pr_rejections pr)
        then (st, Failure NotApproved)
      else
        let amount = js_min (pr_amount pr) (p_reserve p);
            reserve' = js_max (Fin 0) (js_sub (p_reserve p) amount);
            p' = p\<lparr>p_reserve := reserve',
                   p_capReached := (if js_lt reserve' FUNDING_CAP then False else p_capReached p)\<rparr>;
            pr' = pr\<lparr>pr_released := True\<rparr>;
            m' = m\<lparr>m_status := Released\<rparr>
        in (st\<lparr>projects := AList.update pid p' (projects st),
                proposals := AList.update (pr_id pr) pr' (AList.update proposalId pr' (proposals st)),
                milestones := AList.update (m_id m) m'
                                (AList.update (pr_milestoneId pr) m' (milestones st))\<rparr>,
            FundsReleased p' pr' m' amount))"
  using assms by (cases p) (simp add: release_def Let_def)

theorem release_effect_witness:
  "map_of (projects voted_state) ''proj0002'' = Some funded_project \<and>
   map_of (proposals voted_state) ''prop0001'' = Some voted_proposal \<and>
   pr_projectId voted_proposal = p_id funded_project \<and>
   map_of (milestones voted_state) (pr_milestoneId voted_proposal) = Some beta_milestone \<and>
   release voted_state ''alice'' ''proj0002'' ''prop0001'' = (voted_state, Failure Forbidden) \<and>
   snd (release voted_state ''founder'' ''proj0002'' ''prop0001'')
     = FundsReleased released_project (voted_proposal\<lparr>pr_released := True\<rparr>)
         (beta_milestone\<lparr>m_status := Released\<rparr>)
         (Fin (5764607523034235 / 576460752303423488))"
proof -
  have h1: "map_of (projects voted_state) ''proj0002'' = Some funded_project"
    by (simp add: voted_state_def funded_state_def)
  have h2: "map_of (proposals voted_state) ''prop0001'' = Some voted_proposal"
    by (simp add: voted_state_def)
  have h3: "pr_projectId voted_proposal = p_id funded_project"
    by (simp add: voted_proposal_def funded_project_def goal_project_def)
  have h4: "map_of (milestones voted_state) (pr_milestoneId voted_proposal) = Some beta_milestone"
    by (simp add: voted_state_def voted_proposal_def)
  from release_effect [OF h1 h2 h3 h4, of "''alice''"] release_effect [OF h1 h2 h3 h4, of "''founder''"]
    h1 h2 h3 h4
  show ?thesis
    by (simp add: funded_project_def released_project_def goal_project_def voted_proposal_def
        beta_milestone_def Let_def FUNDING_CAP_def js_sub_def js_max_def js_min_def float_eval)
qed

lemma capReached_step:
  assumes "map_of (projects st) pid = Some p" and "p_capReached p" and "fresh_id st op"
    and "\<not> is_release op"
  shows "\<exists>p'. map_of (projects (fst (step st op))) pid = Some p' \<and> p_capReached p'"
proof (cases op)
  case (CreateProjectOp u body newId now)
  have "pid \<in> fst ` set (projects st)"
    using assms(1) by (auto dest!: map_of_SomeD intro: rev_image_eqI)
  with assms(3) CreateProjectOp have "newId \<noteq> pid" by auto
  then show ?thesis using CreateProjectOp assms(1,2)
    by (auto simp: createProject_def Let_def update_conv')
next
  case (BuyOp u pid2 a)
  then show ?thesis using assms(1,2)
    by (cases "pid2 = pid") (auto simp: buy_def Let_def update_conv' split: option.splits)
next
  case (SellOp u pid2 a)
  then show ?thesis using assms(1,2)
    by (cases "pid2 = pid") (auto simp: sell_def Let_def update_conv' split: option.splits)
next
  case (CreateOfferOp u pid2 price a newId now)
  then show ?thesis using assms(1,2)
    by (auto simp: createOffer_def Let_def split: option.splits)
next
  case (FillOp u pid2 oid a)
  then show ?thesis using assms(1,2)
    by (auto simp: fillOffer_def Let_def split: option.splits)
next
  case (CreateMilestoneOp u pid2 t d a i n)
  then show ?thesis using assms(1,2)
    by (auto simp: createMilestone_def Let_def split: option.splits)
next
  case (CreateProposalOp u pid2 m a i n)
  then show ?thesis using assms(1,2)
    by (auto simp: createProposal_def Let_def split: option.splits)
next
  case (VoteOp pid2 prid a)
  then show ?thesis using assms(1,2)
    by (auto simp: vote_def Let_def split: option.splits)
next
  case (ReleaseOp u pid2 prid)
  then show ?thesis using assms(4) by simp
qed

text \<open>
  Once \<open>capReached\<close> is set it stays set under every request but a release, and every
  further purchase on the project is refused.
\<close>

lemma capReached_persists:
  "map_of (projects st) pid = Some p \<Longrightarrow> p_capReached p \<Longrightarrow> fresh_ids st ops \<Longrightarrow>
   \<forall>op \<in> set ops. \<not> is_release op \<Longrightarrow>
   (\<exists>p'. map_of (projects (run st ops)) pid = Some p' \<and> p_capReached p') \<and>
   snd (buy (run st ops) userId pid amount) = Failure CapReached"
proof (induction ops arbitrary: st p)
  case Nil
  then show ?case by (simp add: buy_def)
next
  case (Cons op ops)
  from capReached_step [OF Cons.prems(1,2), of op] Cons.prems(3,4)
  obtain p' where "map_of (projects (fst (step st op))) pid = Some p'" "p_capReached p'"
    by auto
  from Cons.IH [OF this] Cons.prems(3,4) show ?case by simp
qed

text \<open>
  Claim C7, as the code has it. The purchase that takes the reserve to the constant
  \<^verbatim>\<open>FUNDING_CAP\<close> sets \<open>capReached\<close>; the flag stays set in every state reached afterwards
  by requests other than a release, and every later purchase on the project is refused with
  \<open>CapReached\<close>.
\<close>

theorem capReached_set_and_kept:
  assumes "buy st userId pid amount = (st', Bought p' tokensOut)"
    and "js_le FUNDING_CAP (p_reserve p')"
    and "fresh_ids st' ops" and "\<forall>op \<in> set ops. \<not> is_release op"
  shows "p_capReached p' \<and> map_of (projects st') pid = Some p' \<and>
         (\<exists>q. map_of (projects (run st' ops)) pid = Some q \<and> p_capReached q) \<and>
         snd (buy (run st' ops) userId' pid amount') = Failure CapReached"
proof -
  from assms(1,2) have a: "p_capReached p'" and b: "map_of (projects st') pid = Some p'"
    by (auto simp: buy_def Let_def update_conv' split: option.splits if_splits)
  from capReached_persists [OF b a assms(3,4)] a b show ?thesis by blast
qed

theorem capReached_set_and_kept_witness:
  "buy demo_state ''bob'' ''proj0001'' (Fin 100000) = (launched_state, Bought launched_project 5000) \<and>
   js_le FUNDING_CAP (p_reserve launched_project) \<and>
   fresh_ids launched_state [SellOp ''bob'' ''proj0001'' (Fin 1)] \<and>
   p_capReached launched_project \<and>
   snd (buy (run launched_state [SellOp ''bob'' ''proj0001'' (Fin 1)]) ''alice'' ''proj0001'' (Fin 1))
     = Failure CapReached"
proof -
  have h2: "js_le FUNDING_CAP (p_reserve launched_project)"
    by (simp add: launched_project_def FUNDING_CAP_def)
  have h3: "fresh_ids launched_state [SellOp ''bob'' ''proj0001'' (Fin 1)]" by simp
  have h4: "\<forall>op \<in> set [SellOp ''bob'' ''proj0001'' (Fin 1)]. \<not> is_release op" by simp
  from capReached_set_and_kept [OF launched_state_buy h2 h3 h4] launched_state_buy h2 h3
  show ?thesis by blast
qed

subsection \<open>Whole numbers\<close>

lemma whole_iff: "whole x \<longleftrightarrow> (\<exists>n. x = Fin (of_nat n))"
proof
  assume "whole x"
  then obtain r where r: "x = Fin r" "0 \<le> r" "of_int \<lfloor>r\<rfloor> = r" by (cases x) simp_all
  have "real (nat \<lfloor>r\<rfloor>) = of_int \<lfloor>r\<rfloor>" using r(2) by simp
  then show "\<exists>n. x = Fin (of_nat n)" using r(1,3) by metis
next
  assume "\<exists>n. x = Fin (of_nat n)"
  then show "whole x" by auto
qed

lemma whole_nat [simp]: "whole (Fin (of_nat n))"
  by (simp add: whole_iff)

lemma whole_numeral [simp]: "whole (Fin 0)" "whole (Fin 100)"
  by simp_all

lemma whole_val: "whole x \<Longrightarrow> x = Fin (val x) \<and> 0 \<le> val x"
  by (cases x) simp_all

lemma whole_add:
  assumes "whole a" and "whole b" and "val a + val b \<le> 2 ^ 53"
  shows "js_add a b = Fin (val a + val b)" and "whole (js_add a b)"
proof -
  from assms(1,2) obtain m n where a: "a = Fin (real m)" and b: "b = Fin (real n)"
    by (auto simp: whole_iff)
  have "real (m + n) \<le> real (2 ^ 53)" using assms(3) by (simp add: a b)
  then have "m + n \<le> 2 ^ 53" by (simp only: of_nat_le_iff)
  then have "rnd (real (m + n)) = Fin (real (m + n))" by (rule rnd_nat)
  then have r: "js_add a b = Fin (real (m + n))" by (simp add: a b)
  show "js_add a b = Fin (val a + val b)" using r by (simp add: a b)
  show "whole (js_add a b)" unfolding r by (rule whole_nat)
qed

lemma whole_sub:
  assumes "whole a" and "whole b" and "val b \<le> val a" and "val a \<le> 2 ^ 53"
  shows "js_sub a b = Fin (val a - val b)" and "whole (js_sub a b)"
proof -
  from assms(1,2) obtain m n where a: "a = Fin (real m)" and b: "b = Fin (real n)"
    by (auto simp: whole_iff)
  have nm: "n \<le> m" using assms(3) by (simp add: a b)
  have "real m \<le> real (2 ^ 53)" using assms(4) by (simp add: a)
  then have "m \<le> 2 ^ 53" by (simp only: of_nat_le_iff)
  then have "m - n \<le> 2 ^ 53" by simp
  then have "rnd (real (m - n)) = Fin (real (m - n))" by (rule rnd_nat)
  moreover have "real (m - n) = real m - real n" using nm by (rule of_nat_diff)
  ultimately have r: "js_sub a b = Fin (real (m - n))" by (simp add: a b js_sub_def)
  show "js_sub a b = Fin (val a - val b)" using r nm by (simp add: a b of_nat_diff)
  show "whole (js_sub a b)" unfolding r by (rule whole_nat)
qed

lemma whole_lt: "whole a \<Longrightarrow> whole b \<Longrightarrow> js_lt a b = (val a < val b)"
  by (cases a; cases b) simp_all

lemma whole_max0: "whole a \<Longrightarrow> js_max (Fin 0) a = a"
  by (cases a) (simp_all add: js_max_def)

lemma whole_min:
  assumes "whole a" and "whole b"
  shows "js_min a b = Fin (min (val a) (val b))" and "whole (js_min a b)"
  using assms by (cases a; cases b; simp add: js_min_def min_def)+

text \<open>The buying loop never returns more than the steps that are left, whatever its input.\<close>

lemma buy_loop_le: "buy_loop tokens budget s steps \<le> tokens + (5000 - steps)"
proof (induction tokens budget s steps rule: buy_loop.induct)
  case (1 tokens budget s steps)
  show ?case
  proof (cases "js_lt (Fin 0) budget \<and> steps < 5000 \<and> js_le (priceAtSupply s) budget")
    case False
    then have "buy_loop tokens budget s steps = tokens" by (rule buy_loop_stop)
    then show ?thesis by simp
  next
    case True
    then have "buy_loop tokens budget s steps
        = buy_loop (tokens + 1) (js_sub budget (priceAtSupply s)) (js_add s (Fin 1)) (steps + 1)"
      by (intro buy_loop_step) simp_all
    moreover have "buy_loop (tokens + 1) (js_sub budget (priceAtSupply s)) (js_add s (Fin 1))
        (steps + 1) \<le> tokens + 1 + (5000 - (steps + 1))"
      using True by (intro "1.IH") simp_all
    ultimately show ?thesis using True by linarith
  qed
qed

lemma buyTokensQuote_le: "buyTokensQuote s f \<le> 5000"
  using buy_loop_le [of 0 f s 0] by (simp add: buyTokensQuote_def)

subsection \<open>Lists as maps\<close>

lemma total_Nil: "total f [] = 0"
  by (simp add: total_def)

lemma total_Cons: "total f (kv # al) = f (snd kv) + total f al"
  by (simp add: total_def)

lemma total_update:
  "total f (AList.update k v al)
     = total f al - (case map_of al k of None \<Rightarrow> 0 | Some old \<Rightarrow> f old) + f v"
  by (induction al) (auto simp: total_Nil total_Cons)

lemma total_zero: "(\<forall>(k, v) \<in> set al. f v = 0) \<Longrightarrow> total f al = 0"
  by (induction al) (auto simp: total_Nil total_Cons)

lemma total_nonneg: "(\<forall>(k, v) \<in> set al. 0 \<le> f v) \<Longrightarrow> 0 \<le> total f al"
  by (induction al) (auto simp: total_Nil total_Cons)

lemma total_member_le:
  "(\<forall>(k, v) \<in> set al. 0 \<le> f v) \<Longrightarrow> (k, v) \<in> set al \<Longrightarrow> f v \<le> total f al"
proof (induction al)
  case Nil
  then show ?case by simp
next
  case (Cons kv al)
  have nn: "0 \<le> total f al" using Cons.prems(1) by (intro total_nonneg) auto
  show ?case
  proof (cases "(k, v) = kv")
    case True
    then show ?thesis using nn by (auto simp: total_Cons)
  next
    case False
    then have "f v \<le> total f al" using Cons by auto
    moreover have "0 \<le> f (snd kv)" using Cons.prems(1) by (cases kv) auto
    ultimately show ?thesis by (simp add: total_Cons)
  qed
qed

lemma set_update_distinct:
  "distinct (map fst al) \<Longrightarrow>
   (k', v') \<in> set (AList.update k v al) \<longleftrightarrow> (k' = k \<and> v' = v) \<or> (k' \<noteq> k \<and> (k', v') \<in> set al)"
  by (induction al) (auto simp: rev_image_eqI)

lemma holdingKey_inject:
  "length p = length p' \<Longrightarrow> holdingKey u p = holdingKey u' p' \<Longrightarrow> u = u' \<and> p = p'"
  by (simp add: holdingKey_def)

lemma alist_all_update:
  assumes "distinct (map fst al)" and "\<forall>(k, v) \<in> set al. P k v" and "P k0 v0"
  shows "\<forall>(k, v) \<in> set (AList.update k0 v0 al). P k v"
  using assms by (auto simp: set_update_distinct)

subsection \<open>The invariant is kept\<close>

lemma projects_ok_lookup:
  "projects_ok n ps \<Longrightarrow> map_of ps pid = Some p \<Longrightarrow>
   p_id p = pid \<and> length pid = 8 \<and> pid \<in> fst ` set ps \<and> (pid, p) \<in> set ps \<and>
   whole (p_supply p) \<and> val (p_supply p) \<le> of_nat n"
  by (auto simp: projects_ok_def dest!: map_of_SomeD intro: rev_image_eqI)

lemma projects_ok_length: "projects_ok n ps \<Longrightarrow> k \<in> fst ` set ps \<Longrightarrow> length k = 8"
  by (auto simp: projects_ok_def)

lemma projects_ok_mono:
  assumes "projects_ok n ps" and "n \<le> m"
  shows "projects_ok m ps"
proof -
  have "real n \<le> real m" using assms(2) by simp
  then show ?thesis using assms(1) unfolding projects_ok_def by fastforce
qed

lemma projects_ok_update:
  assumes "projects_ok n ps" and "n \<le> m" and "p_id p' = pid" and "length pid = 8"
    and "whole (p_supply p')" and "val (p_supply p') \<le> of_nat m"
  shows "projects_ok m (AList.update pid p' ps)"
proof -
  let ?P = "\<lambda>k p. p_id p = k \<and> length k = 8 \<and> whole (p_supply p) \<and> val (p_supply p) \<le> of_nat m"
  have ok: "projects_ok m ps" using assms(1,2) by (rule projects_ok_mono)
  then have d: "distinct (map fst ps)" and a: "\<forall>(k, p) \<in> set ps. ?P k p"
    by (simp_all add: projects_ok_def)
  have n: "?P pid p'" using assms(3-6) by simp
  have "\<forall>(k, p) \<in> set (AList.update pid p' ps). ?P k p"
    using d a n by (rule alist_all_update)
  then show ?thesis using d by (simp add: projects_ok_def distinct_update)
qed

lemma dom_update_present:
  "map_of ps pid = Some p \<Longrightarrow> fst ` set (AList.update pid p' ps) = fst ` set ps"
  by (auto simp: dom_update dest!: map_of_SomeD intro: rev_image_eqI)

lemma holdings_ok_dom:
  "holdings_ok ps hs \<Longrightarrow> fst ` set ps \<subseteq> fst ` set ps' \<Longrightarrow> holdings_ok ps' hs"
  unfolding holdings_ok_def by blast

lemma offers_ok_dom:
  "offers_ok ps os \<Longrightarrow> fst ` set ps \<subseteq> fst ` set ps' \<Longrightarrow> offers_ok ps' os"
  unfolding offers_ok_def by blast

lemma holdings_ok_update:
  assumes "holdings_ok ps hs" and "pid \<in> fst ` set ps" and "h_userId h' = u"
    and "h_projectId h' = pid" and "whole (h_balance h')"
  shows "holdings_ok ps (AList.update (holdingKey u pid) h' hs)"
proof -
  let ?P = "\<lambda>k h. k = holdingKey (h_userId h) (h_projectId h) \<and>
              h_projectId h \<in> fst ` set ps \<and> whole (h_balance h)"
  have d: "distinct (map fst hs)" and a: "\<forall>(k, h) \<in> set hs. ?P k h"
    using assms(1) by (simp_all add: holdings_ok_def)
  have n: "?P (holdingKey u pid) h'" using assms(2-5) by simp
  have "\<forall>(k, h) \<in> set (AList.update (holdingKey u pid) h' hs). ?P k h"
    using d a n by (rule alist_all_update)
  then show ?thesis using d by (simp add: holdings_ok_def distinct_update)
qed

lemma offers_ok_update:
  assumes "offers_ok ps os" and "o_projectId offer' \<in> fst ` set ps" and "o_id offer' = oid"
    and "whole (o_amount offer')"
  shows "offers_ok ps (AList.update oid offer' os)"
proof -
  let ?P = "\<lambda>k offer. o_id offer = k \<and> o_projectId offer \<in> fst ` set ps \<and>
              whole (o_amount offer)"
  have d: "distinct (map fst os)" and a: "\<forall>(k, offer) \<in> set os. ?P k offer"
    using assms(1) by (simp_all add: offers_ok_def)
  have n: "?P oid offer'" using assms(2-4) by simp
  have "\<forall>(k, offer) \<in> set (AList.update oid offer' os). ?P k offer"
    using d a n by (rule alist_all_update)
  then show ?thesis using d by (simp add: offers_ok_def distinct_update)
qed

lemma holdings_ok_lookup:
  assumes "holdings_ok ps hs" and "projects_ok n ps" and "pid \<in> fst ` set ps"
    and "map_of hs (holdingKey u pid) = Some h"
  shows "h_userId h = u \<and> h_projectId h = pid \<and> whole (h_balance h) \<and>
         (holdingKey u pid, h) \<in> set hs"
proof -
  have mem: "(holdingKey u pid, h) \<in> set hs" using assms(4) by (rule map_of_SomeD)
  with assms(1) have k: "holdingKey u pid = holdingKey (h_userId h) (h_projectId h)"
    and d: "h_projectId h \<in> fst ` set ps" and b: "whole (h_balance h)"
    by (auto simp: holdings_ok_def)
  have "length pid = length (h_projectId h)"
    using projects_ok_length [OF assms(2)] assms(3) d by simp
  from holdingKey_inject [OF this k] mem b show ?thesis by simp
qed

lemma holdingsTotal_update:
  assumes "holdings_ok ps hs" and "projects_ok n ps" and "pid \<in> fst ` set ps"
    and "h_projectId h' = pid"
  shows "holdingsTotal k (AList.update (holdingKey u pid) h' hs)
         = holdingsTotal k hs
           + (if k = pid then val (h_balance h') - val (balanceOf hs (holdingKey u pid)) else 0)"
proof (cases "map_of hs (holdingKey u pid)")
  case None
  then show ?thesis using assms(4)
    by (simp add: holdingsTotal_def total_update holdingWeight_def balanceOf_def)
next
  case (Some h)
  from holdings_ok_lookup [OF assms(1-3) Some] have "h_projectId h = pid" by simp
  then show ?thesis using assms(4) Some
    by (simp add: holdingsTotal_def total_update holdingWeight_def balanceOf_def)
qed

lemma openOffersTotal_update:
  "openOffersTotal k (AList.update oid offer' os)
   = openOffersTotal k os
     - (case map_of os oid of None \<Rightarrow> 0 | Some old \<Rightarrow> offerWeight k old) + offerWeight k offer'"
  by (simp add: openOffersTotal_def total_update)

lemma conserved_step:
  assumes "conserved ps hs os" and "distinct (map fst ps)" and "map_of ps pid = Some p"
    and "\<And>k. holdingsTotal k hs' = holdingsTotal k hs + (if k = pid then dh else 0)"
    and "\<And>k. openOffersTotal k os' = openOffersTotal k os + (if k = pid then dof else 0)"
    and "val (p_supply p') = val (p_supply p) + dh + dof"
  shows "conserved (AList.update pid p' ps) hs' os'"
proof -
  have mem: "(pid, p) \<in> set ps" using assms(3) by (rule map_of_SomeD)
  with assms(1) have old: "holdingsTotal pid hs + openOffersTotal pid os = val (p_supply p)"
    by (auto simp: conserved_def)
  show ?thesis
    unfolding conserved_def
  proof (clarify)
    fix k q
    assume "(k, q) \<in> set (AList.update pid p' ps)"
    then consider "k = pid" "q = p'" | "k \<noteq> pid" "(k, q) \<in> set ps"
      using set_update_distinct [OF assms(2)] by blast
    then show "holdingsTotal k hs' + openOffersTotal k os' = val (p_supply q)"
    proof cases
      case 1
      then show ?thesis using old assms(4) [of pid] assms(5) [of pid] assms(6) by simp
    next
      case 2
      with assms(1) have "holdingsTotal k hs + openOffersTotal k os = val (p_supply q)"
        by (auto simp: conserved_def)
      then show ?thesis using 2 assms(4) [of k] assms(5) [of k] by simp
    qed
  qed
qed

lemma Inv_mono: "Inv n st \<Longrightarrow> n \<le> m \<Longrightarrow> Inv m st"
  by (auto simp: Inv_def intro: projects_ok_mono)

lemma Inv_holding_project:
  assumes inv: "Inv n st" and nm: "n \<le> m" and p: "map_of (projects st) pid = Some p"
    and id: "p_id p' = p_id p"
    and h: "h_userId h' = u" "h_projectId h' = pid" "whole (h_balance h')"
    and sup: "val (p_supply p')
              = val (p_supply p) + (val (h_balance h') - val (balanceOf (holdings st) (holdingKey u pid)))"
    and ws: "whole (p_supply p')" "val (p_supply p') \<le> of_nat m"
    and st': "projects st' = AList.update pid p' (projects st)"
      "holdings st' = AList.update (holdingKey u pid) h' (holdings st)"
      "offers st' = offers st"
  shows "Inv m st'"
proof -
  let ?ps = "projects st" and ?hs = "holdings st" and ?os = "offers st"
  from inv have ok: "projects_ok n ?ps" "holdings_ok ?ps ?hs" "offers_ok ?ps ?os"
    and cons: "conserved ?ps ?hs ?os"
    by (simp_all add: Inv_def)
  from projects_ok_lookup [OF ok(1) p] have pf: "p_id p = pid" "length pid = 8" "pid \<in> fst ` set ?ps"
    by simp_all
  have d: "distinct (map fst ?ps)" using ok(1) by (simp add: projects_ok_def)
  have dom: "fst ` set (AList.update pid p' ?ps) = fst ` set ?ps"
    using p by (rule dom_update_present)
  have 1: "projects_ok m (projects st')"
    unfolding st' using ok(1) nm _ pf(2) ws by (rule projects_ok_update) (simp add: id pf(1))
  have "holdings_ok ?ps (holdings st')"
    unfolding st' using ok(2) pf(3) h by (rule holdings_ok_update)
  then have 2: "holdings_ok (projects st') (holdings st')"
    by (rule holdings_ok_dom) (simp add: st' dom)
  have 3: "offers_ok (projects st') (offers st')"
    unfolding st'(3) using ok(3) by (rule offers_ok_dom) (simp add: st' dom)
  have 4: "conserved (projects st') (holdings st') (offers st')"
    unfolding st'
  proof (rule conserved_step [OF cons d p])
    show "holdingsTotal k (AList.update (holdingKey u pid) h' ?hs)
          = holdingsTotal k ?hs
            + (if k = pid then val (h_balance h') - val (balanceOf ?hs (holdingKey u pid)) else 0)" for k
      using ok(2) ok(1) pf(3) h(2) by (rule holdingsTotal_update)
    show "openOffersTotal k ?os = openOffersTotal k ?os + (if k = pid then 0 else 0)" for k
      by simp
    show "val (p_supply p')
          = val (p_supply p) + (val (h_balance h') - val (balanceOf ?hs (holdingKey u pid))) + 0"
      using sup by simp
  qed
  from 1 2 3 4 show ?thesis by (simp add: Inv_def)
qed

lemma Inv_holding_offer:
  assumes inv: "Inv n st" and p: "map_of (projects st) pid = Some p"
    and h: "h_userId h' = u" "h_projectId h' = pid" "whole (h_balance h')"
    and o: "o_id offer' = oid" "o_projectId offer' = pid" "whole (o_amount offer')"
    and old: "\<And>old. map_of (offers st) oid = Some old \<Longrightarrow> o_projectId old = pid"
    and bal: "val (h_balance h') - val (balanceOf (holdings st) (holdingKey u pid))
              + (offerWeight pid offer'
                 - (case map_of (offers st) oid of None \<Rightarrow> 0 | Some old \<Rightarrow> offerWeight pid old)) = 0"
    and st': "projects st' = projects st"
      "holdings st' = AList.update (holdingKey u pid) h' (holdings st)"
      "offers st' = AList.update oid offer' (offers st)"
  shows "Inv n st'"
proof -
  let ?ps = "projects st" and ?hs = "holdings st" and ?os = "offers st"
  let ?dh = "val (h_balance h') - val (balanceOf ?hs (holdingKey u pid))"
  let ?dof = "offerWeight pid offer'
              - (case map_of ?os oid of None \<Rightarrow> 0 | Some old \<Rightarrow> offerWeight pid old)"
  from inv have ok: "projects_ok n ?ps" "holdings_ok ?ps ?hs" "offers_ok ?ps ?os"
    and cons: "conserved ?ps ?hs ?os"
    by (simp_all add: Inv_def)
  from projects_ok_lookup [OF ok(1) p] have pf: "p_id p = pid" "length pid = 8" "pid \<in> fst ` set ?ps"
    by simp_all
  have d: "distinct (map fst ?ps)" using ok(1) by (simp add: projects_ok_def)
  have triv: "AList.update pid p ?ps = ?ps" using p by (rule update_triv)
  have 1: "projects_ok n (projects st')" using ok(1) by (simp add: st')
  have 2: "holdings_ok (projects st') (holdings st')"
    unfolding st' using ok(2) pf(3) h by (rule holdings_ok_update)
  have 3: "offers_ok (projects st') (offers st')"
    unfolding st' using ok(3) _ o(1) o(3) by (rule offers_ok_update) (simp add: o(2) pf(3))
  have "conserved (AList.update pid p ?ps) (holdings st') (offers st')"
    unfolding st'
  proof (rule conserved_step [OF cons d p])
    show "holdingsTotal k (AList.update (holdingKey u pid) h' ?hs)
          = holdingsTotal k ?hs + (if k = pid then ?dh else 0)" for k
      using ok(2) ok(1) pf(3) h(2) by (rule holdingsTotal_update)
    show "openOffersTotal k (AList.update oid offer' ?os)
          = openOffersTotal k ?os + (if k = pid then ?dof else 0)" for k
      using o(2) old
      by (auto simp: openOffersTotal_update offerWeight_def split: option.splits)
    show "val (p_supply p) = val (p_supply p) + ?dh + ?dof"
      using bal by simp
  qed
  then have 4: "conserved (projects st') (holdings st') (offers st')"
    by (simp add: triv st')
  from 1 2 3 4 show ?thesis by (simp add: Inv_def)
qed

lemma Inv_project_only:
  assumes inv: "Inv n st" and p: "map_of (projects st) pid = Some p"
    and id: "p_id p' = p_id p" and sup: "p_supply p' = p_supply p"
    and st': "projects st' = AList.update pid p' (projects st)"
      "holdings st' = holdings st" "offers st' = offers st"
  shows "Inv n st'"
proof -
  let ?ps = "projects st" and ?hs = "holdings st" and ?os = "offers st"
  from inv have ok: "projects_ok n ?ps" "holdings_ok ?ps ?hs" "offers_ok ?ps ?os"
    and cons: "conserved ?ps ?hs ?os"
    by (simp_all add: Inv_def)
  from projects_ok_lookup [OF ok(1) p]
  have pf: "p_id p = pid" "length pid = 8" "pid \<in> fst ` set ?ps"
    "whole (p_supply p)" "val (p_supply p) \<le> of_nat n"
    by simp_all
  have d: "distinct (map fst ?ps)" using ok(1) by (simp add: projects_ok_def)
  have dom: "fst ` set (AList.update pid p' ?ps) = fst ` set ?ps"
    using p by (rule dom_update_present)
  have 1: "projects_ok n (projects st')"
    unfolding st' using ok(1) order_refl _ pf(2)
    by (rule projects_ok_update) (simp_all add: id sup pf)
  have 2: "holdings_ok (projects st') (holdings st')"
    unfolding st'(2) using ok(2) by (rule holdings_ok_dom) (simp add: st' dom)
  have 3: "offers_ok (projects st') (offers st')"
    unfolding st'(3) using ok(3) by (rule offers_ok_dom) (simp add: st' dom)
  have 4: "conserved (projects st') (holdings st') (offers st')"
    unfolding st'
    by (rule conserved_step [OF cons d p, where dh = 0 and dof = 0]) (simp_all add: sup)
  from 1 2 3 4 show ?thesis by (simp add: Inv_def)
qed

lemma balanceOf_Some: "map_of hs key = Some h \<Longrightarrow> balanceOf hs key = h_balance h"
  by (simp add: balanceOf_def)

text \<open>The holding that \<^verbatim>\<open>holdings.get(key) || {userId, projectId, balance: 0}\<close> yields.\<close>

lemma holding_or_new:
  assumes "Inv n st" and "map_of (projects st) pid = Some p"
    and "h = (case map_of (holdings st) (holdingKey u pid) of
                Some h \<Rightarrow> h
              | None \<Rightarrow> \<lparr>h_userId = u, h_projectId = pid, h_balance = Fin 0\<rparr>)"
  shows "h_userId h = u \<and> h_projectId h = pid \<and>
         h_balance h = balanceOf (holdings st) (holdingKey u pid) \<and> whole (h_balance h)"
proof (cases "map_of (holdings st) (holdingKey u pid)")
  case None
  then show ?thesis using assms(3) by (simp add: balanceOf_def)
next
  case (Some h0)
  from assms(1) have ok: "projects_ok n (projects st)" "holdings_ok (projects st) (holdings st)"
    by (simp_all add: Inv_def)
  from projects_ok_lookup [OF ok(1) assms(2)] have "pid \<in> fst ` set (projects st)" by simp
  from holdings_ok_lookup [OF ok(2) ok(1) this Some] Some assms(3) show ?thesis
    by (simp add: balanceOf_def)
qed

text \<open>No balance and no open offer of a project holds more than its supply.\<close>

lemma balance_le_supply:
  assumes inv: "Inv n st" and p: "map_of (projects st) pid = Some p"
  shows "val (balanceOf (holdings st) (holdingKey u pid)) \<le> val (p_supply p)"
    and "map_of (offers st) oid = Some offer \<Longrightarrow> o_projectId offer = pid \<Longrightarrow>
         o_status offer = OfferOpen \<Longrightarrow>
         val (balanceOf (holdings st) (holdingKey u pid)) + val (o_amount offer) \<le> val (p_supply p)"
proof -
  let ?ps = "projects st" and ?hs = "holdings st" and ?os = "offers st"
  from inv have ok: "projects_ok n ?ps" "holdings_ok ?ps ?hs" "offers_ok ?ps ?os"
    and cons: "conserved ?ps ?hs ?os"
    by (simp_all add: Inv_def)
  from projects_ok_lookup [OF ok(1) p]
  have pf: "pid \<in> fst ` set ?ps" "(pid, p) \<in> set ?ps" by simp_all
  have hnn: "\<forall>(k, h) \<in> set ?hs. 0 \<le> holdingWeight pid h"
    using ok(2) by (auto simp: holdings_ok_def holdingWeight_def dest: whole_val)
  have onn: "\<forall>(k, offer) \<in> set ?os. 0 \<le> offerWeight pid offer"
    using ok(3) by (auto simp: offers_ok_def offerWeight_def dest: whole_val)
  have bal: "val (balanceOf ?hs (holdingKey u pid)) \<le> holdingsTotal pid ?hs"
  proof (cases "map_of ?hs (holdingKey u pid)")
    case None
    then show ?thesis using total_nonneg [OF hnn] by (simp add: balanceOf_def holdingsTotal_def)
  next
    case (Some h)
    from holdings_ok_lookup [OF ok(2) ok(1) pf(1) Some]
    have hf: "h_projectId h = pid" "(holdingKey u pid, h) \<in> set ?hs" by simp_all
    from total_member_le [OF hnn hf(2)]
    have "holdingWeight pid h \<le> holdingsTotal pid ?hs" by (simp only: holdingsTotal_def)
    then show ?thesis using hf(1) Some by (simp add: balanceOf_def holdingWeight_def)
  qed
  have tot: "holdingsTotal pid ?hs + openOffersTotal pid ?os = val (p_supply p)"
    using cons pf(2) by (auto simp: conserved_def)
  have "0 \<le> openOffersTotal pid ?os"
    unfolding openOffersTotal_def using onn by (rule total_nonneg)
  then show "val (balanceOf ?hs (holdingKey u pid)) \<le> val (p_supply p)"
    using bal tot by linarith
  show "val (balanceOf ?hs (holdingKey u pid)) + val (o_amount offer) \<le> val (p_supply p)"
    if "map_of ?os oid = Some offer" "o_projectId offer = pid" "o_status offer = OfferOpen"
  proof -
    have "(oid, offer) \<in> set ?os" using that(1) by (rule map_of_SomeD)
    from total_member_le [OF onn this]
    have "offerWeight pid offer \<le> openOffersTotal pid ?os" by (simp only: openOffersTotal_def)
    then have "val (o_amount offer) \<le> openOffersTotal pid ?os"
      using that(2,3) by (simp add: offerWeight_def)
    then show ?thesis using bal tot by linarith
  qed
qed

lemma of_nat_bound:
  assumes "n + k \<le> 2 ^ 53"
  shows "real n + real k \<le> 2 ^ 53"
proof -
  have "real (n + k) \<le> real (2 ^ 53)" using assms by (simp only: of_nat_le_iff)
  then show ?thesis by simp
qed

lemma Inv_buy:
  assumes inv: "Inv n st" and bound: "n + 5000 \<le> 2 ^ 53"
  shows "Inv (n + 5000) (fst (buy st u pid a))"
proof (cases "map_of (projects st) pid")
  case None
  then show ?thesis using Inv_mono [OF inv, of "n + 5000"] by (simp add: buy_def)
next
  case (Some p)
  from inv have ok: "projects_ok n (projects st)" by (simp add: Inv_def)
  from projects_ok_lookup [OF ok Some]
  have pid: "p_id p = pid" and ws: "whole (p_supply p)" "val (p_supply p) \<le> real n" by simp_all
  let ?t = "buyTokensQuote (p_supply p) a"
  show ?thesis
  proof (cases "p_capReached p \<or> js_le a (Fin 0) \<or> ?t \<le> 0")
    case True
    then show ?thesis using Inv_mono [OF inv, of "n + 5000"] Some by (auto simp: buy_def Let_def)
  next
    case False
    define h where "h = (case map_of (holdings st) (holdingKey u pid) of
                Some h \<Rightarrow> h
              | None \<Rightarrow> \<lparr>h_userId = u, h_projectId = pid, h_balance = Fin 0\<rparr>)"
    define h' where "h' = h\<lparr>h_balance := js_add (h_balance h) (Fin (of_nat ?t))\<rparr>"
    define p2 where "p2 = p\<lparr>p_supply := js_add (p_supply p) (Fin (of_nat ?t)),
                            p_reserve := js_add (p_reserve p) a\<rparr>"
    define p3 where "p3 = (if js_le FUNDING_CAP (p_reserve p2) then p2\<lparr>p_capReached := True\<rparr> else p2)"
    define st' where "st' = st\<lparr>projects := AList.update pid p3 (projects st),
                      holdings := AList.update (holdingKey u pid) h' (holdings st)\<rparr>"
    have p3: "p_id p3 = p_id p" "p_supply p3 = js_add (p_supply p) (Fin (of_nat ?t))"
      by (simp_all add: p3_def p2_def)
    have eq: "fst (buy st u pid a) = st'"
      using False Some pid
      by (simp add: buy_def Let_def st'_def h'_def h_def p3_def p2_def cong: option.case_cong)
    have hf: "h_userId h = u" "h_projectId h = pid"
      "h_balance h = balanceOf (holdings st) (holdingKey u pid)" "whole (h_balance h)"
      using holding_or_new [OF inv Some h_def] by blast+
    have t5: "real ?t \<le> 5000" using buyTokensQuote_le [of "p_supply p" a] by simp
    have nb: "real n + 5000 \<le> 2 ^ 53" using of_nat_bound [OF bound] by simp
    have bs: "val (h_balance h) \<le> val (p_supply p)"
      using balance_le_supply(1) [OF inv Some, of u] by (simp add: hf(3))
    have s53: "val (p_supply p) + val (Fin (real ?t)) \<le> 2 ^ 53" using ws(2) t5 nb by simp
    have b53: "val (h_balance h) + val (Fin (real ?t)) \<le> 2 ^ 53" using bs ws(2) t5 nb by simp
    note sa = whole_add [OF ws(1) whole_nat s53]
    note ba = whole_add [OF hf(4) whole_nat b53]
    have "Inv (n + 5000) st'"
    proof (rule Inv_holding_project [OF inv _ Some p3(1)])
      show "n \<le> n + 5000" by simp
      show "h_userId h' = u" "h_projectId h' = pid" using hf by (simp_all add: h'_def)
      show "whole (h_balance h')" using ba(2) by (simp add: h'_def)
      show "val (p_supply p3)
            = val (p_supply p) + (val (h_balance h') - val (balanceOf (holdings st) (holdingKey u pid)))"
        using sa(1) ba(1) hf(3) by (simp add: p3 h'_def)
      show "whole (p_supply p3)" using sa(2) by (simp add: p3)
      show "val (p_supply p3) \<le> real (n + 5000)" using sa(1) ws(2) t5 by (simp add: p3)
    qed (simp_all add: st'_def)
    then show ?thesis by (simp add: eq)
  qed
qed

lemma Inv_sell:
  assumes inv: "Inv n st" and bound: "n \<le> 2 ^ 53" and wt: "whole tokens"
  shows "Inv n (fst (sell st u pid tokens))"
proof (cases "map_of (projects st) pid")
  case None
  then show ?thesis using inv by (simp add: sell_def)
next
  case (Some p)
  from inv have ok: "projects_ok n (projects st)" "holdings_ok (projects st) (holdings st)"
    by (simp_all add: Inv_def)
  from projects_ok_lookup [OF ok(1) Some]
  have pid: "p_id p = pid" "pid \<in> fst ` set (projects st)"
    and ws: "whole (p_supply p)" "val (p_supply p) \<le> real n"
    by simp_all
  have n53: "real n \<le> 2 ^ 53" using of_nat_bound [of n 0] bound by simp
  show ?thesis
  proof (cases "map_of (holdings st) (holdingKey u pid)")
    case None
    then show ?thesis using inv Some pid by (simp add: sell_def Let_def)
  next
    case h: (Some h)
    show ?thesis
    proof (cases "js_le tokens (Fin 0) \<or> js_lt (h_balance h) tokens")
      case True
      then show ?thesis using inv Some h pid by (auto simp: sell_def Let_def)
    next
      case False
      let ?out = "sellTokensQuote (p_supply p) tokens"
      define h' where "h' = h\<lparr>h_balance := js_sub (h_balance h) tokens\<rparr>"
      define p2 where "p2 = p\<lparr>p_supply := js_max (Fin 0) (js_sub (p_supply p) tokens),
                              p_reserve := js_max (Fin 0) (js_sub (p_reserve p) ?out)\<rparr>"
      define st' where "st' = st\<lparr>projects := AList.update pid p2 (projects st),
                      holdings := AList.update (holdingKey u pid) h' (holdings st)\<rparr>"
      have eq: "fst (sell st u pid tokens) = st'"
        using False Some h pid by (simp add: sell_def Let_def st'_def h'_def p2_def)
      from holdings_ok_lookup [OF ok(2) ok(1) pid(2) h]
      have hf: "h_userId h = u" "h_projectId h = pid" "whole (h_balance h)"
        by simp_all
      have tb: "val tokens \<le> val (h_balance h)"
        using False whole_lt [OF hf(3) wt] by simp
      have bs: "val (h_balance h) \<le> val (p_supply p)"
        using balance_le_supply(1) [OF inv Some, of u] by (simp add: balanceOf_Some [OF h])
      have ts: "val tokens \<le> val (p_supply p)" using tb bs by simp
      have b53: "val (h_balance h) \<le> 2 ^ 53" and s53: "val (p_supply p) \<le> 2 ^ 53"
        using bs ws(2) n53 by simp_all
      note bsub = whole_sub [OF hf(3) wt tb b53]
      note ssub = whole_sub [OF ws(1) wt ts s53]
      have sup: "p_supply p2 = js_sub (p_supply p) tokens"
        using whole_max0 [OF ssub(2)] by (simp add: p2_def)
      have t0: "0 \<le> val tokens" using whole_val [OF wt] by simp
      have "Inv n st'"
      proof (rule Inv_holding_project [OF inv order_refl Some])
        show "p_id p2 = p_id p" by (simp add: p2_def)
        show "h_userId h' = u" "h_projectId h' = pid" using hf by (simp_all add: h'_def)
        show "whole (h_balance h')" using bsub(2) by (simp add: h'_def)
        show "val (p_supply p2)
              = val (p_supply p) + (val (h_balance h') - val (balanceOf (holdings st) (holdingKey u pid)))"
          using ssub(1) bsub(1) by (simp add: sup h'_def balanceOf_Some [OF h])
        show "whole (p_supply p2)" using ssub(2) by (simp add: sup)
        show "val (p_supply p2) \<le> real n" using ssub(1) ws(2) t0 by (simp add: sup)
      qed (simp_all add: st'_def)
      then show ?thesis by (simp add: eq)
    qed
  qed
qed

lemma Inv_createOffer:
  assumes inv: "Inv n st" and bound: "n \<le> 2 ^ 53" and wa: "whole a"
    and fresh: "newId \<notin> fst ` set (offers st)"
  shows "Inv n (fst (createOffer st u pid price a newId now))"
proof (cases "map_of (projects st) pid")
  case None
  then show ?thesis using inv by (simp add: createOffer_def)
next
  case (Some p)
  from inv have ok: "projects_ok n (projects st)" "holdings_ok (projects st) (holdings st)"
    by (simp_all add: Inv_def)
  from projects_ok_lookup [OF ok(1) Some]
  have pid: "p_id p = pid" "pid \<in> fst ` set (projects st)"
    and ws: "val (p_supply p) \<le> real n"
    by simp_all
  have n53: "real n \<le> 2 ^ 53" using of_nat_bound [of n 0] bound by simp
  show ?thesis
  proof (cases "map_of (holdings st) (holdingKey u pid)")
    case None
    then show ?thesis using inv Some pid by (simp add: createOffer_def Let_def)
  next
    case h: (Some h)
    show ?thesis
    proof (cases "js_le price (Fin 0) \<or> js_le a (Fin 0) \<or> js_lt (h_balance h) a")
      case True
      then show ?thesis using inv Some h pid by (auto simp: createOffer_def Let_def)
    next
      case False
      define h' where "h' = h\<lparr>h_balance := js_sub (h_balance h) a\<rparr>"
      define offer where "offer = \<lparr>o_id = newId, o_projectId = pid, o_sellerId = u,
                                o_pricePerToken = price, o_amount = a,
                                o_createdAt = now, o_status = OfferOpen\<rparr>"
      define st' where "st' = st\<lparr>holdings := AList.update (holdingKey u pid) h' (holdings st),
                           offers := AList.update newId offer (offers st)\<rparr>"
      have eq: "fst (createOffer st u pid price a newId now) = st'"
        using False Some h pid by (simp add: createOffer_def Let_def st'_def h'_def offer_def)
      from holdings_ok_lookup [OF ok(2) ok(1) pid(2) h]
      have hf: "h_userId h = u" "h_projectId h = pid" "whole (h_balance h)"
        by simp_all
      have ab: "val a \<le> val (h_balance h)"
        using False whole_lt [OF hf(3) wa] by simp
      have bs: "val (h_balance h) \<le> val (p_supply p)"
        using balance_le_supply(1) [OF inv Some, of u] by (simp add: balanceOf_Some [OF h])
      have b53: "val (h_balance h) \<le> 2 ^ 53" using bs ws n53 by simp
      note bsub = whole_sub [OF hf(3) wa ab b53]
      have none: "map_of (offers st) newId = None"
        using fresh by (simp add: map_of_eq_None_iff)
      have "Inv n st'"
      proof (rule Inv_holding_offer [OF inv Some])
        show "h_userId h' = u" "h_projectId h' = pid" using hf by (simp_all add: h'_def)
        show "whole (h_balance h')" using bsub(2) by (simp add: h'_def)
        show "o_id offer = newId" "o_projectId offer = pid" "whole (o_amount offer)"
          using wa by (simp_all add: offer_def)
        show "o_projectId old = pid" if "map_of (offers st) newId = Some old" for old
          using that none by simp
        show "val (h_balance h') - val (balanceOf (holdings st) (holdingKey u pid))
              + (offerWeight pid offer
                 - (case map_of (offers st) newId of None \<Rightarrow> 0 | Some old \<Rightarrow> offerWeight pid old)) = 0"
          using bsub(1) by (simp add: none h'_def balanceOf_Some [OF h] offerWeight_def offer_def)
      qed (simp_all add: st'_def)
      then show ?thesis by (simp add: eq)
    qed
  qed
qed

lemma offers_ok_lookup:
  "offers_ok ps os \<Longrightarrow> map_of os oid = Some offer \<Longrightarrow> o_id offer = oid \<and> whole (o_amount offer)"
  by (auto simp: offers_ok_def dest!: map_of_SomeD)

lemma Inv_fillOffer:
  assumes inv: "Inv n st" and bound: "n \<le> 2 ^ 53" and wa: "whole a"
  shows "Inv n (fst (fillOffer st u pid oid a))"
proof (cases "map_of (projects st) pid")
  case None
  then show ?thesis using inv by (simp add: fillOffer_def)
next
  case (Some p)
  from inv have ok: "projects_ok n (projects st)" "offers_ok (projects st) (offers st)"
    by (simp_all add: Inv_def)
  from projects_ok_lookup [OF ok(1) Some]
  have pid: "p_id p = pid" and ws: "val (p_supply p) \<le> real n" by simp_all
  have n53: "real n \<le> 2 ^ 53" using of_nat_bound [of n 0] bound by simp
  show ?thesis
  proof (cases "map_of (offers st) oid")
    case None
    then show ?thesis using inv Some by (simp add: fillOffer_def)
  next
    case off: (Some offer)
    let ?take = "js_max (Fin 0) (js_min (o_amount offer) a)"
    show ?thesis
    proof (cases "o_projectId offer \<noteq> pid \<or> o_status offer \<noteq> OfferOpen \<or>
                  js_le (o_amount offer) (Fin 0) \<or> js_le ?take (Fin 0)")
      case True
      then show ?thesis using inv Some off pid by (auto simp: fillOffer_def Let_def)
    next
      case False
      define h where "h = (case map_of (holdings st) (holdingKey u pid) of
                  Some h \<Rightarrow> h
                | None \<Rightarrow> \<lparr>h_userId = u, h_projectId = pid, h_balance = Fin 0\<rparr>)"
      define h' where "h' = h\<lparr>h_balance := js_add (h_balance h) ?take\<rparr>"
      define offer1 where "offer1 = offer\<lparr>o_amount := js_sub (o_amount offer) ?take\<rparr>"
      define offer2 where
        "offer2 = (if o_amount offer1 = Fin 0 then offer1\<lparr>o_status := OfferFilled\<rparr> else offer1)"
      define st' where "st' = st\<lparr>holdings := AList.update (holdingKey u pid) h' (holdings st),
                           offers := AList.update oid offer2 (offers st)\<rparr>"
      from offers_ok_lookup [OF ok(2) off]
      have oid: "o_id offer = oid" and wo: "whole (o_amount offer)" by simp_all
      note mn = whole_min [OF wo wa]
      have take: "?take = Fin (min (val (o_amount offer)) (val a))" "whole ?take"
        using whole_max0 [OF mn(2)] mn by simp_all
      have tv: "val ?take \<le> val (o_amount offer)" "0 \<le> val ?take"
        using whole_val [OF take(2)] by (simp_all add: take(1))
      have o2: "o_id offer2 = oid" "o_projectId offer2 = pid"
        "o_amount offer2 = js_sub (o_amount offer) ?take"
        using oid False by (simp_all add: offer2_def offer1_def)
      have eq: "fst (fillOffer st u pid oid a) = st'"
        using False Some off pid o2(1)
        by (simp add: fillOffer_def Let_def st'_def h'_def h_def
            offer2_def [symmetric] offer1_def [symmetric] cong: option.case_cong)
      have hf: "h_userId h = u" "h_projectId h = pid"
        "h_balance h = balanceOf (holdings st) (holdingKey u pid)" "whole (h_balance h)"
        using holding_or_new [OF inv Some h_def] by blast+
      have "val (h_balance h) + val (o_amount offer) \<le> val (p_supply p)"
        using balance_le_supply(2) [OF inv Some off, of u] False by (simp add: hf(3))
      then have room: "val (h_balance h) + val ?take \<le> 2 ^ 53"
        and o53: "val (o_amount offer) \<le> 2 ^ 53"
        using tv ws n53 whole_val [OF hf(4)] by linarith+
      note badd = whole_add [OF hf(4) take(2) room]
      note osub = whole_sub [OF wo take(2) tv(1) o53]
      have w: "offerWeight pid offer = val (o_amount offer)"
        using False by (simp add: offerWeight_def)
      have w2: "offerWeight pid offer2 = val (o_amount offer) - val ?take"
      proof (cases "o_amount offer1 = Fin 0")
        case True
        then have "val (o_amount offer) - val ?take = 0"
          using osub(1) by (simp add: offer1_def)
        then show ?thesis using True by (simp add: offerWeight_def offer2_def)
      next
        case nz: False
        then show ?thesis using False osub(1)
          by (simp add: offerWeight_def offer2_def offer1_def)
      qed
      have "Inv n st'"
      proof (rule Inv_holding_offer [OF inv Some])
        show "h_userId h' = u" "h_projectId h' = pid" using hf by (simp_all add: h'_def)
        show "whole (h_balance h')" using badd(2) by (simp add: h'_def)
        show "o_id offer2 = oid" "o_projectId offer2 = pid" by (fact o2)+
        show "whole (o_amount offer2)" using osub(2) by (simp add: o2)
        show "o_projectId old = pid" if "map_of (offers st) oid = Some old" for old
          using that off False by simp
        show "val (h_balance h') - val (balanceOf (holdings st) (holdingKey u pid))
              + (offerWeight pid offer2
                 - (case map_of (offers st) oid of None \<Rightarrow> 0 | Some old \<Rightarrow> offerWeight pid old)) = 0"
          using hf(3) badd(1) by (simp add: off w w2 h'_def)
      qed (simp_all add: st'_def)
      then show ?thesis by (simp add: eq)
    qed
  qed
qed

lemma Inv_createProject:
  assumes inv: "Inv n st" and len: "length newId = 8" and fresh: "newId \<notin> fst ` set (projects st)"
  shows "Inv (n + 5000) (fst (createProject st u body newId now))"
proof (cases "b_name body = [] \<or> b_summary body = [] \<or> b_plan body = []")
  case True
  then show ?thesis using Inv_mono [OF inv, of "n + 5000"] by (auto simp: createProject_def)
next
  case False
  let ?ps = "projects st" and ?hs = "holdings st" and ?os = "offers st"
  let ?key = "holdingKey u newId"
  from inv have "Inv (n + 5000) st" by (rule Inv_mono) simp
  then have ok: "projects_ok (n + 5000) ?ps" "holdings_ok ?ps ?hs" "offers_ok ?ps ?os"
    and cons: "conserved ?ps ?hs ?os"
    by (simp_all add: Inv_def)
  define project where "project = \<lparr>p_id = newId, p_founderId = u, p_name = b_name body,
              p_videoUrl = b_videoUrl body, p_summary = b_summary body,
              p_resumesUrl = b_resumesUrl body, p_plan = b_plan body, p_createdAt = now,
              p_supply = Fin 100, p_reserve = Fin 0, p_capReached = False,
              p_tokenSymbol = b_tokenSymbol body,
              p_fundingGoal = (case b_fundingGoal body of
                                 Some g \<Rightarrow> if js_lt (Fin 0) g then g else FUNDING_CAP
                               | None \<Rightarrow> FUNDING_CAP)\<rparr>"
  define h' where "h' = \<lparr>h_userId = u, h_projectId = newId, h_balance = Fin 100\<rparr>"
  define st' where "st' = st\<lparr>projects := AList.update newId project ?ps,
                              holdings := AList.update ?key h' ?hs\<rparr>"
  have nokey: "map_of ?hs ?key = None"
  proof (rule ccontr)
    assume "map_of ?hs ?key \<noteq> None"
    then obtain h where h: "map_of ?hs ?key = Some h" by auto
    then have "(?key, h) \<in> set ?hs" by (rule map_of_SomeD)
    with ok(2) have k: "?key = holdingKey (h_userId h) (h_projectId h)"
      and d: "h_projectId h \<in> fst ` set ?ps"
      by (auto simp: holdings_ok_def)
    have "length newId = length (h_projectId h)"
      using projects_ok_length [OF ok(1) d] len by simp
    from holdingKey_inject [OF this k] d fresh show False by simp
  qed
  have eq: "fst (createProject st u body newId now) = st'"
    using False
    by (simp add: createProject_def Let_def st'_def h'_def project_def nokey rnd_100)
  have dom: "fst ` set ?ps \<subseteq> fst ` set (AList.update newId project ?ps)"
    by (auto simp: dom_update)
  have new: "newId \<in> fst ` set (AList.update newId project ?ps)"
    by (simp add: dom_update)
  have "projects_ok (n + 5000) (AList.update newId project ?ps)"
    using ok(1) order_refl _ len by (rule projects_ok_update) (simp_all add: project_def)
  then have 1: "projects_ok (n + 5000) (projects st')" by (simp add: st'_def)
  have "holdings_ok (AList.update newId project ?ps) ?hs"
    using ok(2) dom by (rule holdings_ok_dom)
  then have "holdings_ok (AList.update newId project ?ps) (AList.update ?key h' ?hs)"
    using new by (rule holdings_ok_update) (simp_all add: h'_def)
  then have 2: "holdings_ok (projects st') (holdings st')" by (simp add: st'_def)
  have 3: "offers_ok (projects st') (offers st')"
    using offers_ok_dom [OF ok(3) dom] by (simp add: st'_def)
  have hz: "holdingsTotal newId ?hs = 0"
    unfolding holdingsTotal_def
    using ok(2) fresh by (intro total_zero) (auto simp: holdings_ok_def holdingWeight_def)
  have oz: "openOffersTotal newId ?os = 0"
    unfolding openOffersTotal_def
    using ok(3) fresh by (intro total_zero) (auto simp: offers_ok_def offerWeight_def)
  have ht: "holdingsTotal k (AList.update ?key h' ?hs)
            = holdingsTotal k ?hs + (if k = newId then 100 else 0)" for k
    by (simp add: holdingsTotal_def total_update nokey holdingWeight_def h'_def)
  have d: "distinct (map fst ?ps)" using ok(1) by (simp add: projects_ok_def)
  have 4: "conserved (projects st') (holdings st') (offers st')"
    unfolding conserved_def
  proof (clarify)
    fix k q
    assume "(k, q) \<in> set (projects st')"
    then consider "k = newId" "q = project" | "k \<noteq> newId" "(k, q) \<in> set ?ps"
      using set_update_distinct [OF d] by (auto simp: st'_def)
    then show "holdingsTotal k (holdings st') + openOffersTotal k (offers st') = val (p_supply q)"
    proof cases
      case 1
      then show ?thesis using hz oz ht [of newId] by (simp add: st'_def project_def)
    next
      case 2
      with cons have "holdingsTotal k ?hs + openOffersTotal k ?os = val (p_supply q)"
        by (auto simp: conserved_def)
      then show ?thesis using 2 ht [of k] by (simp add: st'_def)
    qed
  qed
  from 1 2 3 4 have "Inv (n + 5000) st'" by (simp add: Inv_def)
  then show ?thesis by (simp add: eq)
qed

lemma Inv_createMilestone: "Inv n st \<Longrightarrow> Inv n (fst (createMilestone st u pid t d a i now))"
  by (auto simp: createMilestone_def Let_def Inv_def split: option.splits)

lemma Inv_createProposal: "Inv n st \<Longrightarrow> Inv n (fst (createProposal st u pid m a i now))"
  by (auto simp: createProposal_def Let_def Inv_def split: option.splits)

lemma Inv_vote: "Inv n st \<Longrightarrow> Inv n (fst (vote st pid prid a))"
  by (auto simp: vote_def Let_def Inv_def split: option.splits)

lemma Inv_release:
  assumes inv: "Inv n st"
  shows "Inv n (fst (release st u pid prid))"
proof (cases "map_of (projects st) pid")
  case None
  then show ?thesis using inv by (simp add: release_def)
next
  case (Some p)
  define amount where "amount = (case map_of (proposals st) prid of
                                   Some pr \<Rightarrow> js_min (pr_amount pr) (p_reserve p) | None \<Rightarrow> Fin 0)"
  define p1 where "p1 = p\<lparr>p_reserve := js_max (Fin 0) (js_sub (p_reserve p) amount)\<rparr>"
  define p2 where "p2 = (if js_lt (p_reserve p1) FUNDING_CAP then p1\<lparr>p_capReached := False\<rparr> else p1)"
  have p2: "p_id p2 = p_id p" "p_supply p2 = p_supply p"
    by (simp_all add: p2_def p1_def)
  have "fst (release st u pid prid) = st \<or>
        (projects (fst (release st u pid prid)) = AList.update pid p2 (projects st) \<and>
         holdings (fst (release st u pid prid)) = holdings st \<and>
         offers (fst (release st u pid prid)) = offers st)"
    using Some
    by (auto simp: release_def Let_def p2_def p1_def amount_def split: option.splits)
  then show ?thesis
  proof
    assume "fst (release st u pid prid) = st"
    then show ?thesis using inv by simp
  next
    assume "projects (fst (release st u pid prid)) = AList.update pid p2 (projects st) \<and>
         holdings (fst (release st u pid prid)) = holdings st \<and>
         offers (fst (release st u pid prid)) = offers st"
    then show ?thesis
      using Inv_project_only [OF inv Some p2] by blast
  qed
qed

lemma Inv_step:
  assumes "Inv n st" and "fresh_id st op" and "whole_amounts op" and "n + 5000 \<le> 2 ^ 53"
  shows "Inv (n + 5000) (fst (step st op))"
proof -
  have n: "n \<le> 2 ^ 53" using assms(4) by simp
  have m: "Inv n st' \<Longrightarrow> Inv (n + 5000) st'" for st'
    using Inv_mono [of n st' "n + 5000"] by simp
  show ?thesis
    using assms(1-3) n assms(4)
    by (cases op)
       (simp_all add: Inv_createProject Inv_buy m Inv_sell Inv_createOffer Inv_fillOffer
          Inv_createMilestone Inv_createProposal Inv_vote Inv_release)
qed

lemma Inv_run:
  "Inv n st \<Longrightarrow> fresh_ids st ops \<Longrightarrow> \<forall>op \<in> set ops. whole_amounts op \<Longrightarrow>
   n + 5000 * length ops \<le> 2 ^ 53 \<Longrightarrow> Inv (n + 5000 * length ops) (run st ops)"
proof (induction ops arbitrary: n st)
  case Nil
  then show ?case by simp
next
  case (Cons op ops)
  have "Inv (n + 5000) (fst (step st op))"
    using Cons.prems by (intro Inv_step) simp_all
  moreover have "fresh_ids (fst (step st op)) ops" using Cons.prems(2) by simp
  moreover have "\<forall>op \<in> set ops. whole_amounts op" using Cons.prems(3) by simp
  moreover have "n + 5000 + 5000 * length ops \<le> 2 ^ 53" using Cons.prems(4) by simp
  ultimately have "Inv (n + 5000 + 5000 * length ops) (run (fst (step st op)) ops)"
    by (rule Cons.IH)
  then show ?case by (simp add: algebra_simps)
qed

lemma Inv_init: "Inv 0 init_state"
  by (simp add: Inv_def init_state_def projects_ok_def holdings_ok_def offers_ok_def
      conserved_def)

lemma conserved_run:
  assumes "fresh_ids init_state ops" and "\<forall>op \<in> set ops. whole_amounts op"
    and "5000 * length ops \<le> 2 ^ 53"
    and "map_of (projects (run init_state ops)) pid = Some p"
  shows "balances_whole (run init_state ops) \<and> whole (p_supply p) \<and>
         holdingsTotal pid (holdings (run init_state ops))
         + openOffersTotal pid (offers (run init_state ops)) = val (p_supply p)"
proof -
  let ?st = "run init_state ops"
  have "Inv (0 + 5000 * length ops) ?st"
    using Inv_init assms(1,2) by (rule Inv_run) (use assms(3) in simp)
  then have ok: "projects_ok (5000 * length ops) (projects ?st)"
      "holdings_ok (projects ?st) (holdings ?st)" "offers_ok (projects ?st) (offers ?st)"
    and cons: "conserved (projects ?st) (holdings ?st) (offers ?st)"
    by (simp_all add: Inv_def)
  have 1: "balances_whole ?st"
    using ok(2,3) by (auto simp: balances_whole_def holdings_ok_def offers_ok_def)
  have 2: "whole (p_supply p)" using projects_ok_lookup [OF ok(1) assms(4)] by simp
  have "(pid, p) \<in> set (projects ?st)" using assms(4) by (rule map_of_SomeD)
  with cons have 3: "holdingsTotal pid (holdings ?st) + openOffersTotal pid (offers ?st)
      = val (p_supply p)"
    by (auto simp: conserved_def)
  from 1 2 3 show ?thesis by blast
qed

subsection \<open>Conservation of tokens\<close>

lemma trade_ops_run:
  "run init_state trade_ops =
     \<lparr>projects = [(''proj0001'', resold_project)],
     holdings = [(''founder:proj0001'',
                    \<lparr>h_userId = ''founder'', h_projectId = ''proj0001'', h_balance = Fin 100\<rparr>),
                 (''alice:proj0001'',
                    \<lparr>h_userId = ''alice'', h_projectId = ''proj0001'', h_balance = Fin 0\<rparr>),
                 (''bob:proj0001'',
                    \<lparr>h_userId = ''bob'', h_projectId = ''proj0001'', h_balance = Fin 0\<rparr>)],
     offers = [(''offer001'',
                  \<lparr>o_id = ''offer001'', o_projectId = ''proj0001'', o_sellerId = ''alice'',
                     o_pricePerToken = Fin 1, o_amount = Fin 1, o_createdAt = 1,
                     o_status = OfferOpen\<rparr>)],
     milestones = [], proposals = []\<rparr>"
  by (simp add: trade_ops_def run_append escrow_state_run)
     (simp add: escrow_state_def demo_project_def resold_project_def fillOffer_def sell_def
        holdingKey_def Let_def sellTokensQuote_demo js_sub_def js_max_def js_min_def float_eval)

lemma trade_ops_fresh: "fresh_ids init_state trade_ops"
  by (simp add: trade_ops_def fresh_ids_append market_ops_fresh)

lemma trade_ops_whole: "\<forall>op \<in> set trade_ops. whole_amounts op"
  by (simp add: trade_ops_def market_ops_def demo_ops_def)

text \<open>
  Claim C1, as the code has it. Start the server with empty stores and let it serve a finite
  sequence of requests (create project, buy, sell, create offer and fill, and the milestone
  and proposal requests too) in which every \<^verbatim>\<open>nanoid(8)\<close> is a new identifier, every sale,
  offer and fill names a whole number of tokens, and which is short enough for every supply
  to stay below \<open>2^53\<close>. Then every balance, every escrowed amount and every supply is a
  whole number, and for every project in the store the balances of all its holdings plus
  the amounts of all its open offers add up to its supply.
\<close>

theorem conservation:
  assumes "fresh_ids init_state ops" and "\<forall>op \<in> set ops. whole_amounts op"
    and "5000 * length ops \<le> 2 ^ 53"
    and "map_of (projects (run init_state ops)) pid = Some p"
  shows "balances_whole (run init_state ops) \<and> whole (p_supply p) \<and>
         holdingsTotal pid (holdings (run init_state ops))
         + openOffersTotal pid (offers (run init_state ops)) = val (p_supply p)"
  using assms by (rule conserved_run)

theorem conservation_witness:
  "fresh_ids init_state trade_ops \<and> 5000 * length trade_ops \<le> 2 ^ 53 \<and>
   map_of (projects (run init_state trade_ops)) ''proj0001'' = Some resold_project \<and>
   p_supply resold_project = Fin 101 \<and>
   holdingsTotal ''proj0001'' (holdings (run init_state trade_ops)) = 100 \<and>
   openOffersTotal ''proj0001'' (offers (run init_state trade_ops)) = 1 \<and>
   holdingsTotal ''proj0001'' (holdings (run init_state trade_ops))
     + openOffersTotal ''proj0001'' (offers (run init_state trade_ops)) = val (p_supply resold_project)"
proof -
  have h3: "5000 * length trade_ops \<le> 2 ^ 53"
    by (simp add: trade_ops_def market_ops_def demo_ops_def)
  have h4: "map_of (projects (run init_state trade_ops)) ''proj0001'' = Some resold_project"
    by (simp add: trade_ops_run)
  have t: "holdingsTotal ''proj0001'' (holdings (run init_state trade_ops)) = 100"
    "openOffersTotal ''proj0001'' (offers (run init_state trade_ops)) = 1"
    by (simp_all add: trade_ops_run holdingsTotal_def openOffersTotal_def total_def
        holdingWeight_def offerWeight_def)
  have s: "p_supply resold_project = Fin 101" by (simp add: resold_project_def)
  from conservation [OF trade_ops_fresh trade_ops_whole h3 h4] trade_ops_fresh h3 h4 t s
  show ?thesis by simp
qed

lemma sellTokensQuote_tenth:
  "sellTokensQuote (Fin 102) (Fin (3602879701896397 / 36028797018963968))
     = Fin (2896715280324703 / 144115188075855872)"
  by (simp add: sellTokensQuote_def sell_loop.simps price_101 js_sub_def js_max_def float_eval)

lemma sellTokensQuote_tenth2:
  "sellTokensQuote (Fin (3585287515851981 / 35184372088832))
       (Fin (3602879701896397 / 36028797018963968))
     = Fin (2895274128443945 / 144115188075855872)"
  by (simp add: sellTokensQuote_def sell_loop.simps price_eval js_max_def)

lemma drift_state_run: "run init_state drift_ops = drift_state"
  by (simp add: drift_ops_def run_append demo_state_run)
     (simp add: demo_state_def drift_state_def demo_project_def sell_def holdingKey_def Let_def
        lit_01 sellTokensQuote_tenth sellTokensQuote_tenth2 js_sub_def js_max_def float_eval)

lemma drift_ops_fresh: "fresh_ids init_state drift_ops"
  by (simp add: drift_ops_def fresh_ids_append demo_ops_fresh)

text \<open>
  Claim C1 as stated fails: the handlers take any number of tokens and round. After the
  purchase of two tokens and two sales of \<^verbatim>\<open>0.1\<close> token the supply is
  \<^verbatim>\<open>101.80000000000001\<close>, while the founder holds \<open>100\<close> and the backer
  \<^verbatim>\<open>1.7999999999999998\<close>: the balances do not add up to the supply, neither exactly nor
  when they are added in binary64.
\<close>

theorem conservation_drift_counterexample:
  "fresh_ids init_state drift_ops \<and>
   run init_state drift_ops = drift_state \<and>
   map_of (projects drift_state) ''proj0001''
     = Some (demo_project\<lparr>p_supply := Fin (1790884539321549 / 17592186044416),
                          p_reserve := Fin (706884997512073 / 72057594037927936)\<rparr>) \<and>
   holdingsTotal ''proj0001'' (holdings drift_state)
     = 100 + 2026619832316723 / 1125899906842624 \<and>
   openOffersTotal ''proj0001'' (offers drift_state) = 0 \<and>
   holdingsTotal ''proj0001'' (holdings drift_state)
     + openOffersTotal ''proj0001'' (offers drift_state)
     \<noteq> (1790884539321549 / 17592186044416 :: real) \<and>
   js_add (Fin 100) (Fin (2026619832316723 / 1125899906842624))
     \<noteq> Fin (1790884539321549 / 17592186044416)"
  by (simp add: drift_ops_fresh drift_state_run)
     (simp add: drift_state_def holdingsTotal_def openOffersTotal_def total_def
        holdingWeight_def offerWeight_def float_eval)

text \<open>
  A sale of \<^verbatim>\<open>NaN\<close> tokens, which \<^verbatim>\<open>Number("abc")\<close> yields, passes both guards of the
  handler and writes \<^verbatim>\<open>NaN\<close> into the supply and into the balance.
\<close>

lemma sell_accepts_NaN:
  "sell demo_state ''alice'' ''proj0001'' NaN =
     (demo_state\<lparr>projects := [(''proj0001'', demo_project\<lparr>p_supply := NaN\<rparr>)],
        holdings := [(''founder:proj0001'',
                        \<lparr>h_userId = ''founder'', h_projectId = ''proj0001'', h_balance = Fin 100\<rparr>),
                     (''alice:proj0001'',
                        \<lparr>h_userId = ''alice'', h_projectId = ''proj0001'', h_balance = NaN\<rparr>)]\<rparr>,
      Sold (demo_project\<lparr>p_supply := NaN\<rparr>) (Fin 0))"
  by (simp add: sell_def demo_state_def demo_project_def holdingKey_def sellTokensQuote_def
      sell_loop.simps Let_def js_sub_def js_max_def float_eval)

end
